theory Spec2Isabelle
  imports Complex_Main
begin

section \<open>The schedule time map of the deck parser (TimeMap.cpp)\<close>

text \<open>
  The class \<open>TimeMap\<close> owns the vector \<open>m_timeList\<close> of \<open>std::time_t\<close> values and the two
  vectors \<open>m_first_timestep_months\<close> and \<open>m_first_timestep_years\<close> of \<open>size_t\<close> indices.
  A member function that mutates the object is a function from the object to a result
  and the object afterwards; a \<open>throw\<close> is the result \<open>Inl e\<close>, paired with the object as
  the exception leaves it.

  The values of the machine types are integers of HOL, and each operation of the source
  that can leave the range of its type is followed by the wrap-around of that type.
\<close>

subsection \<open>Errors\<close>

datatype error =
    OrderingViolation   \<comment> \<open>\<open>std::invalid_argument("Times added must be in strictly increasing order.")\<close>\<close>
  | InvalidDate         \<comment> \<open>\<open>std::invalid_argument("Invalid input arguments for date.")\<close>\<close>
  | IndexOutOfRange     \<comment> \<open>\<open>std::invalid_argument("Index out of range")\<close>\<close>
  | UnknownMonthName    \<comment> \<open>\<open>std::out_of_range\<close> thrown by \<open>std::map::at\<close>\<close>
  | WrongKeyword        \<comment> \<open>\<open>std::invalid_argument("Method requires ... keyword input.")\<close>\<close>
  | DeckAccess          \<comment> \<open>a record, item or value that the deck does not hold\<close>

subsection \<open>Machine integers\<close>

text \<open>
  \<open>std::time_t\<close> and \<open>int64_t\<close> are signed and 64 bits wide, \<open>int\<close> is signed and 32 bits
  wide, \<open>size_t\<close> is unsigned and 64 bits wide. An addition or subtraction of signed
  values that leaves the range is undefined in C++; the model gives it the result of
  the two's complement machine, the exact result modulo \<open>2 ^ 64\<close> read as a signed
  number, which is what the compiled instruction computes. The conversions that C++
  defines as wrapping (\<open>size_t\<close> subtraction, the narrowing of a \<open>ptrdiff_t\<close> to \<open>int\<close>,
  \<open>int\<close> to \<open>size_t\<close>) are written in the same way.
\<close>

definition is_int64 :: "int \<Rightarrow> bool" where
  "is_int64 k = (- (2 ^ 63) \<le> k \<and> k < 2 ^ 63)"

definition int64_wrap :: "int \<Rightarrow> int" where
  "int64_wrap k = (k + 2 ^ 63) mod 2 ^ 64 - 2 ^ 63"

text \<open>The narrowing of a 64-bit value to the 32-bit \<open>int\<close>.\<close>

definition int_wrap :: "int \<Rightarrow> int" where
  "int_wrap k = (k + 2 ^ 31) mod 2 ^ 32 - 2 ^ 31"

definition size_t_wrap :: "int \<Rightarrow> nat" where
  "size_t_wrap k = nat (k mod 2 ^ 64)"

subsection \<open>The UTC calendar of the utility library\<close>

text \<open>
  Modelled from the spec: \<open>util_make_datetime_utc\<close> and \<open>util_set_date_values_utc\<close> are
  functions of the ert utility library (\<open>ert/util/util.h\<close>), whose code is not among the
  sources. The spec asks for "UTC calendar semantics (not local time)" and says of the
  composition that it will "wrap overflowing days into the next month"; the source's
  comment says the same of \<open>mktime\<close>. The two functions are therefore the POSIX pair
  \<open>timegm\<close> and \<open>gmtime\<close> on the proleptic Gregorian calendar, with months numbered
  from 1 and years written in full: composition normalises the month into 1..12 by
  carrying into the year and then counts days, hours, minutes and seconds linearly.
\<close>

definition days_from_civil :: "int \<Rightarrow> int \<Rightarrow> int \<Rightarrow> int" where
  "days_from_civil year month day =
     (let y = (if month \<le> 2 then year - 1 else year);
          era = y div 400;
          yoe = y - era * 400;
          mp = (if month > 2 then month - 3 else month + 9);
          doy = (153 * mp + 2) div 5 + day - 1;
          doe = yoe * 365 + yoe div 4 - yoe div 100 + doy
      in era * 146097 + doe - 719468)"

definition civil_from_days :: "int \<Rightarrow> int \<times> int \<times> int" where
  "civil_from_days z0 =
     (let z = z0 + 719468;
          era = z div 146097;
          doe = z - era * 146097;
          yoe = (doe - doe div 1460 + doe div 36524 - doe div 146096) div 365;
          doy = doe - (365 * yoe + yoe div 4 - yoe div 100);
          mp = (5 * doy + 2) div 153;
          d = doy - (153 * mp + 2) div 5 + 1;
          m = (if mp < 10 then mp + 3 else mp - 9);
          y = yoe + era * 400
      in (d, m, if m \<le> 2 then y + 1 else y))"

definition util_make_datetime_utc :: "int \<Rightarrow> int \<Rightarrow> int \<Rightarrow> int \<Rightarrow> int \<Rightarrow> int \<Rightarrow> int" where
  "util_make_datetime_utc sec minute hour mday month year =
     (let mon0 = month - 1;
          y = year + mon0 div 12;
          m = mon0 mod 12 + 1
      in (days_from_civil y m 1 + (mday - 1)) * 86400 + hour * 3600 + minute * 60 + sec)"

text \<open>The result is (day of the month, month, year), the order of the C out-parameters.\<close>

definition util_set_date_values_utc :: "int \<Rightarrow> int \<times> int \<times> int" where
  "util_set_date_values_utc t = civil_from_days (t div 86400)"

subsection \<open>The object and its constructor from a start time\<close>

record TimeMap =
  m_timeList :: "int list"
  m_first_timestep_months :: "nat list"
  m_first_timestep_years :: "nat list"

type_synonym 'a result = "(error + 'a) \<times> TimeMap"

definition TimeMap_start :: "int \<Rightarrow> TimeMap" where
  "TimeMap_start startTime =
     \<lparr>m_timeList = [startTime], m_first_timestep_months = [], m_first_timestep_years = []\<rparr>"

definition size_tm :: "TimeMap \<Rightarrow> nat" where
  "size_tm tm = length (m_timeList tm)"

definition numTimesteps :: "TimeMap \<Rightarrow> nat" where
  "numTimesteps tm = size_t_wrap (int (length (m_timeList tm)) - 1)"

definition last_step :: "TimeMap \<Rightarrow> nat" where
  "last_step tm = numTimesteps tm"

text \<open>\<open>operator[]\<close>: the only checked read of the time list.\<close>

definition at_index :: "TimeMap \<Rightarrow> nat \<Rightarrow> error + int" where
  "at_index tm index =
     (if index < length (m_timeList tm) then Inr (m_timeList tm ! index)
      else Inl IndexOutOfRange)"

definition getStartTime :: "TimeMap \<Rightarrow> nat \<Rightarrow> error + int" where
  "getStartTime tm tStepIdx = at_index tm tStepIdx"

definition getEndTime :: "TimeMap \<Rightarrow> error + int" where
  "getEndTime tm = at_index tm (size_t_wrap (int (size_tm tm) - 1))"

subsection \<open>Appending\<close>

text \<open>
  \<open>addTime\<close> reads \<open>m_timeList.back()\<close>; every constructor pushes a first element, so the
  list of a constructed object is never empty. The exception is thrown before anything
  is written.
\<close>

definition addTime :: "int \<Rightarrow> TimeMap \<Rightarrow> unit result" where
  "addTime newTime tm =
     (let lastTime = last (m_timeList tm);
          step = length (m_timeList tm)
      in if newTime > lastTime then
           (let (new_day, new_month, new_year) = util_set_date_values_utc newTime;
                (last_day, last_month, last_year) = util_set_date_values_utc lastTime;
                tm1 = (if new_month \<noteq> last_month
                       then tm\<lparr>m_first_timestep_months := m_first_timestep_months tm @ [step]\<rparr>
                       else tm);
                tm2 = (if new_year \<noteq> last_year
                       then tm1\<lparr>m_first_timestep_years := m_first_timestep_years tm1 @ [step]\<rparr>
                       else tm1)
            in (Inr (), tm2\<lparr>m_timeList := m_timeList tm2 @ [newTime]\<rparr>))
         else (Inl OrderingViolation, tm))"

text \<open>\<open>forward\<close> adds in \<open>std::time_t\<close>.\<close>

definition forward :: "int \<Rightarrow> int \<Rightarrow> int" where
  "forward t seconds = int64_wrap (t + seconds)"

definition addTStep :: "int \<Rightarrow> TimeMap \<Rightarrow> unit result" where
  "addTStep step tm = addTime (forward (last (m_timeList tm)) step) tm"

subsection \<open>Date construction\<close>

definition mkdatetime :: "int \<Rightarrow> int \<Rightarrow> int \<Rightarrow> int \<Rightarrow> int \<Rightarrow> int \<Rightarrow> error + int" where
  "mkdatetime in_year in_month in_day hour minute second =
     (let t = util_make_datetime_utc second minute hour in_day in_month in_year;
          (out_day, out_month, out_year) = util_set_date_values_utc t
      in if in_day \<noteq> out_day \<or> in_month \<noteq> out_month \<or> in_year \<noteq> out_year
         then Inl InvalidDate
         else Inr t)"

definition mkdate :: "int \<Rightarrow> int \<Rightarrow> int \<Rightarrow> error + int" where
  "mkdate in_year in_month in_day = mkdatetime in_year in_month in_day 0 0 0"

subsection \<open>Double precision\<close>

text \<open>
  A \<open>double\<close> is represented by the rational number it denotes. An arithmetic
  operation of IEEE 754 binary64 is the exact operation followed by rounding to the
  nearest representable number, ties to the even significand: \<open>round_double\<close>. The
  significand has 53 bits; below \<open>2 ^ -1022\<close> the spacing stays that of the subnormal
  numbers. Overflow to infinity is not represented (magnitudes of \<open>2 ^ 1024\<close> and more),
  and neither is a NaN.
\<close>

function bitlen :: "int \<Rightarrow> int" where
  "bitlen k = (if k \<le> 0 then 0 else 1 + bitlen (k div 2))"
  by pat_completeness auto
termination
  by (relation "measure nat") auto

declare bitlen.simps [simp del]

definition pow2 :: "int \<Rightarrow> rat" where
  "pow2 e = (if 0 \<le> e then 2 ^ nat e else 1 / 2 ^ nat (- e))"

text \<open>The binary exponent of a positive number: \<open>pow2 (ilog2 x) \<le> x < pow2 (ilog2 x + 1)\<close>.\<close>

definition ilog2 :: "rat \<Rightarrow> int" where
  "ilog2 x = (if 1 \<le> x then bitlen \<lfloor>x\<rfloor> - 1 else - bitlen (\<lceil>1 / x\<rceil> - 1))"

definition round_half_even :: "rat \<Rightarrow> int" where
  "round_half_even x =
     (let f = \<lfloor>x\<rfloor>; r = x - of_int f
      in if r < 1 / 2 then f else if 1 / 2 < r then f + 1 else if even f then f else f + 1)"

definition round_double :: "rat \<Rightarrow> rat" where
  "round_double x =
     (if x = 0 then 0
      else (let e = max (ilog2 \<bar>x\<bar>) (- 1022); ulp = pow2 (e - 52)
            in of_int (round_half_even (x / ulp)) * ulp))"

definition is_double :: "rat \<Rightarrow> bool" where
  "is_double x = (round_double x = x)"

definition double_mult :: "rat \<Rightarrow> rat \<Rightarrow> rat" where
  "double_mult x y = round_double (x * y)"

text \<open>
  \<open>static_cast<double>\<close> of an integer, and \<open>static_cast<int64_t>\<close> of a double, which
  drops the fraction. For a number whose integer part is outside the range of
  \<open>int64_t\<close> the conversion is undefined in C++; the conversion instruction of x86-64
  gives the smallest \<open>int64_t\<close> then, and so does the model.
\<close>

definition double_of_int :: "int \<Rightarrow> rat" where
  "double_of_int k = round_double (of_int k)"

definition int64_of_double :: "rat \<Rightarrow> int" where
  "int64_of_double x =
     (let k = (if 0 \<le> x then \<lfloor>x\<rfloor> else \<lceil>x\<rceil>)
      in if is_int64 k then k else - (2 ^ 63))"

subsection \<open>The deck\<close>

text \<open>
  Modelled from the spec: the classes \<open>Deck\<close>, \<open>DeckKeyword\<close>, \<open>DeckRecord\<close> and \<open>DeckItem\<close>
  are declared in headers that are not among the sources. The spec describes a keyword
  occurrence as a name with records, a date record as "(day, month-name, year, optional
  time-of-day string)" and a duration record as "a sequence of day-counts, one per added
  step". A deck is the list of its keywords in stream order, a keyword a name and its
  records, a record the list of its items, an item the list of its values. A read of
  what is not there, or of a value of another type, throws; \<open>getKeyword\<close> with a name
  gives the last keyword of that name.
\<close>

datatype DeckValue = IntValue int | DoubleValue rat | StringValue string

type_synonym DeckItem = "DeckValue list"

type_synonym DeckRecord = "DeckItem list"

record DeckKeyword =
  kw_name :: string
  kw_records :: "DeckRecord list"

type_synonym Deck = "DeckKeyword list"

definition hasKeyword :: "Deck \<Rightarrow> string \<Rightarrow> bool" where
  "hasKeyword deck n = (filter (\<lambda>k. kw_name k = n) deck \<noteq> [])"

definition getKeyword :: "Deck \<Rightarrow> string \<Rightarrow> error + DeckKeyword" where
  "getKeyword deck n =
     (case filter (\<lambda>k. kw_name k = n) deck of
        [] \<Rightarrow> Inl DeckAccess
      | k # ks \<Rightarrow> Inr (last (k # ks)))"

definition getRecord :: "DeckKeyword \<Rightarrow> nat \<Rightarrow> error + DeckRecord" where
  "getRecord kw i = (if i < length (kw_records kw) then Inr (kw_records kw ! i) else Inl DeckAccess)"

definition getItem :: "DeckRecord \<Rightarrow> nat \<Rightarrow> error + DeckItem" where
  "getItem r i = (if i < length r then Inr (r ! i) else Inl DeckAccess)"

definition hasValue :: "DeckItem \<Rightarrow> nat \<Rightarrow> bool" where
  "hasValue item i = (i < length item)"

definition get_int :: "DeckItem \<Rightarrow> nat \<Rightarrow> error + int" where
  "get_int item i =
     (if i < length item then (case item ! i of IntValue v \<Rightarrow> Inr v | _ \<Rightarrow> Inl DeckAccess)
      else Inl DeckAccess)"

definition get_double :: "DeckItem \<Rightarrow> nat \<Rightarrow> error + rat" where
  "get_double item i =
     (if i < length item then (case item ! i of DoubleValue v \<Rightarrow> Inr v | _ \<Rightarrow> Inl DeckAccess)
      else Inl DeckAccess)"

definition get_string :: "DeckItem \<Rightarrow> nat \<Rightarrow> error + string" where
  "get_string item i =
     (if i < length item then (case item ! i of StringValue v \<Rightarrow> Inr v | _ \<Rightarrow> Inl DeckAccess)
      else Inl DeckAccess)"

subsection \<open>Date records\<close>

text \<open>
  \<open>eclipseMonthIndices\<close> fills a \<open>std::map\<close> by sixteen calls of \<open>insert\<close>, which keeps the
  value a key already has, as \<open>map_of\<close> keeps the first pair of a key. \<open>std::map::at\<close>
  throws \<open>std::out_of_range\<close> for a key the map does not hold.
\<close>

definition eclipseMonthIndices :: "string \<rightharpoonup> int" where
  "eclipseMonthIndices =
     map_of [(''JAN'', 1), (''FEB'', 2), (''MAR'', 3), (''APR'', 4), (''MAI'', 5), (''MAY'', 5),
             (''JUN'', 6), (''JUL'', 7), (''JLY'', 7), (''AUG'', 8), (''SEP'', 9), (''OCT'', 10),
             (''OKT'', 10), (''NOV'', 11), (''DEC'', 12), (''DES'', 12)]"

definition map_at :: "(string \<rightharpoonup> int) \<Rightarrow> string \<Rightarrow> error + int" where
  "map_at m k = (case m k of None \<Rightarrow> Inl UnknownMonthName | Some v \<Rightarrow> Inr v)"

text \<open>
  \<open>sscanf\<close> with the format \<open>%d:%d:%d\<close>: each \<open>%d\<close> skips white space, takes an optional
  sign and at least one decimal digit; each colon of the format must be the next
  character. The result is the three numbers when all three conversions succeed, which
  is the only case in which the caller keeps them. A number that does not fit an \<open>int\<close>
  is undefined in C; the C library converts the digits with \<open>strtol\<close>, which stops at
  the ends of the range of \<open>long\<close>, and stores the low 32 bits, and so does the model.
\<close>

definition isspace :: "char \<Rightarrow> bool" where
  "isspace c = (c \<in> set [CHR '' '', CHR 0x09, CHR 0x0A, CHR 0x0B, CHR 0x0C, CHR 0x0D])"

definition isdigit :: "char \<Rightarrow> bool" where
  "isdigit c = (c \<in> set ''0123456789'')"

definition decimal :: "string \<Rightarrow> int" where
  "decimal ds = foldl (\<lambda>acc c. 10 * acc + (int (of_char c) - 48)) 0 ds"

definition scan_d :: "string \<Rightarrow> (int \<times> string) option" where
  "scan_d s =
     (let s1 = dropWhile isspace s;
          (sign, s2) = (case s1 of
                          c # r \<Rightarrow> if c = CHR ''-'' then (- 1, r)
                                   else if c = CHR ''+'' then (1, r) else (1, s1)
                        | [] \<Rightarrow> (1, s1));
          ds = takeWhile isdigit s2
      in if ds = [] then None
         else Some (int_wrap (max (- (2 ^ 63)) (min (2 ^ 63 - 1) (sign * decimal ds))),
                    dropWhile isdigit s2))"

definition scan_colon :: "string \<Rightarrow> string option" where
  "scan_colon s = (case s of c # r \<Rightarrow> if c = CHR '':'' then Some r else None | [] \<Rightarrow> None)"

definition sscanf_hms :: "string \<Rightarrow> (int \<times> int \<times> int) option" where
  "sscanf_hms s =
     (case scan_d s of None \<Rightarrow> None | Some (h, r1) \<Rightarrow>
      (case scan_colon r1 of None \<Rightarrow> None | Some r2 \<Rightarrow>
       (case scan_d r2 of None \<Rightarrow> None | Some (m, r3) \<Rightarrow>
        (case scan_colon r3 of None \<Rightarrow> None | Some r4 \<Rightarrow>
         (case scan_d r4 of None \<Rightarrow> None | Some (sec, r5) \<Rightarrow> Some (h, m, sec))))))"

definition and_then :: "error + 'a \<Rightarrow> ('a \<Rightarrow> error + 'b) \<Rightarrow> error + 'b" where
  "and_then r f = (case r of Inl e \<Rightarrow> Inl e | Inr x \<Rightarrow> f x)"

text \<open>
  The arguments of the call of \<open>mkdatetime\<close> are evaluated here from left to right (C++
  leaves their order open; it decides only which exception is seen when several reads
  of one record fail).
\<close>

definition timeFromEclipse :: "DeckRecord \<Rightarrow> error + int" where
  "timeFromEclipse dateRecord =
     and_then (getItem dateRecord 0) (\<lambda>dayItem.
     and_then (getItem dateRecord 1) (\<lambda>monthItem.
     and_then (getItem dateRecord 2) (\<lambda>yearItem.
     and_then (getItem dateRecord 3) (\<lambda>timeItem.
     and_then (if hasValue timeItem 0
               then and_then (get_string timeItem 0) (\<lambda>str.
                      case sscanf_hms str of None \<Rightarrow> Inr (0, 0, 0) | Some hms \<Rightarrow> Inr hms)
               else Inr (0, 0, 0)) (\<lambda>(hour, minute, second).
     and_then (get_int yearItem 0) (\<lambda>year.
     and_then (get_string monthItem 0) (\<lambda>monthName.
     and_then (map_at eclipseMonthIndices monthName) (\<lambda>month.
     and_then (get_int dayItem 0) (\<lambda>day.
       mkdatetime year month day hour minute second)))))))))"

subsection \<open>Keywords that add times\<close>

fun addFromDATES_records :: "DeckRecord list \<Rightarrow> TimeMap \<Rightarrow> unit result" where
  "addFromDATES_records [] tm = (Inr (), tm)"
| "addFromDATES_records (r # rs) tm =
     (case timeFromEclipse r of
        Inl e \<Rightarrow> (Inl e, tm)
      | Inr nextTime \<Rightarrow>
          (case addTime nextTime tm of
             (Inl e, tm') \<Rightarrow> (Inl e, tm')
           | (Inr u, tm') \<Rightarrow> addFromDATES_records rs tm'))"

definition addFromDATESKeyword :: "DeckKeyword \<Rightarrow> TimeMap \<Rightarrow> unit result" where
  "addFromDATESKeyword DATESKeyword tm =
     (if kw_name DATESKeyword \<noteq> ''DATES'' then (Inl WrongKeyword, tm)
      else addFromDATES_records (kw_records DATESKeyword) tm)"

text \<open>
  \<open>days * 24 * 60 * 60\<close> is three double multiplications, from left to right. The loop
  over \<open>itemIndex\<close> reads the values of the item in order with \<open>get<double>\<close>, which
  throws for a value that is not a double.
\<close>

definition tstep_product :: "rat \<Rightarrow> rat" where
  "tstep_product days = double_mult (double_mult (double_mult days 24) 60) 60"

definition tstep_seconds :: "rat \<Rightarrow> int" where
  "tstep_seconds days = int64_of_double (tstep_product days)"

fun addFromTSTEP_values :: "DeckValue list \<Rightarrow> TimeMap \<Rightarrow> unit result" where
  "addFromTSTEP_values [] tm = (Inr (), tm)"
| "addFromTSTEP_values (v # vs) tm =
     (case v of
        DoubleValue days \<Rightarrow>
          (case addTStep (tstep_seconds days) tm of
             (Inl e, tm') \<Rightarrow> (Inl e, tm')
           | (Inr u, tm') \<Rightarrow> addFromTSTEP_values vs tm')
      | IntValue i \<Rightarrow> (Inl DeckAccess, tm)
      | StringValue str \<Rightarrow> (Inl DeckAccess, tm))"

definition addFromTSTEPKeyword :: "DeckKeyword \<Rightarrow> TimeMap \<Rightarrow> unit result" where
  "addFromTSTEPKeyword TSTEPKeyword tm =
     (if kw_name TSTEPKeyword \<noteq> ''TSTEP'' then (Inl WrongKeyword, tm)
      else (case and_then (getRecord TSTEPKeyword 0) (\<lambda>r. getItem r 0) of
              Inl e \<Rightarrow> (Inl e, tm)
            | Inr item \<Rightarrow> addFromTSTEP_values item tm))"

subsection \<open>The constructor from a deck\<close>

fun add_keywords :: "Deck \<Rightarrow> TimeMap \<Rightarrow> unit result" where
  "add_keywords [] tm = (Inr (), tm)"
| "add_keywords (keyword # rest) tm =
     (if kw_name keyword \<noteq> ''TSTEP'' \<and> kw_name keyword \<noteq> ''DATES''
      then add_keywords rest tm
      else (case (if kw_name keyword = ''TSTEP'' then addFromTSTEPKeyword keyword tm
                  else if kw_name keyword = ''DATES'' then addFromDATESKeyword keyword tm
                  else (Inr (), tm)) of
              (Inl e, tm') \<Rightarrow> (Inl e, tm')
            | (Inr u, tm') \<Rightarrow> add_keywords rest tm'))"

text \<open>An exception that leaves the constructor leaves no object.\<close>

definition TimeMap_deck :: "Deck \<Rightarrow> error + TimeMap" where
  "TimeMap_deck deck =
     (case (if hasKeyword deck ''START''
            then and_then (getKeyword deck ''START'') (\<lambda>keyword.
                 and_then (getRecord keyword 0) timeFromEclipse)
            else mkdate 1983 1 1) of
        Inl e \<Rightarrow> Inl e
      | Inr t \<Rightarrow>
          (case add_keywords deck (TimeMap_start t) of
             (Inl e, tm) \<Rightarrow> Inl e
           | (Inr u, tm) \<Rightarrow> Inr tm))"

subsection \<open>Durations\<close>

text \<open>
  Two of the functions begin with an \<open>assert\<close>. In a build with assertions a false
  condition ends the process: nothing is returned and nothing is thrown. A build with
  \<open>NDEBUG\<close> has no check there; the function goes on and reads the vector, and a read
  outside the vector is undefined. The flag \<open>ndebug\<close> tells the builds apart. The
  difference of the two times is taken in \<open>std::time_t\<close> and then converted to \<open>double\<close>.
\<close>

datatype 'a outcome = Returned 'a | Aborted | Undefined

definition getTotalTime :: "TimeMap \<Rightarrow> rat" where
  "getTotalTime tm =
     (if length (m_timeList tm) < 2 then 0
      else double_of_int (int64_wrap (last (m_timeList tm) - hd (m_timeList tm))))"

definition getTimeStepLength :: "bool \<Rightarrow> TimeMap \<Rightarrow> nat \<Rightarrow> rat outcome" where
  "getTimeStepLength ndebug tm tStepIdx =
     (if \<not> ndebug \<and> \<not> tStepIdx < numTimesteps tm then Aborted
      else if tStepIdx + 1 < length (m_timeList tm)
      then Returned (double_of_int
             (int64_wrap (m_timeList tm ! (tStepIdx + 1) - m_timeList tm ! tStepIdx)))
      else Undefined)"

definition getTimePassedUntil :: "bool \<Rightarrow> TimeMap \<Rightarrow> nat \<Rightarrow> rat outcome" where
  "getTimePassedUntil ndebug tm tLevelIdx =
     (if \<not> ndebug \<and> \<not> tLevelIdx < length (m_timeList tm) then Aborted
      else if tLevelIdx < length (m_timeList tm)
      then Returned (double_of_int (int64_wrap (m_timeList tm ! tLevelIdx - hd (m_timeList tm))))
      else Undefined)"

subsection \<open>The periodic query\<close>

text \<open>
  An iterator of a vector is the position it points at, \<open>end()\<close> the length.
  \<open>std::find\<close> gives the first position that holds the value. \<open>std::lower_bound\<close> is
  taken by its contract on a sorted vector (the source: "vec is assumed to be sorted"):
  the first position whose element is not less than the value.
\<close>

fun std_find :: "nat list \<Rightarrow> nat \<Rightarrow> nat" where
  "std_find [] v = 0"
| "std_find (x # xs) v = (if x = v then 0 else Suc (std_find xs v))"

definition lower_bound :: "nat list \<Rightarrow> nat \<Rightarrow> nat" where
  "lower_bound vec v = length (takeWhile (\<lambda>x. x < v) vec)"

definition getFirstTimestepMonths :: "TimeMap \<Rightarrow> nat list" where
  "getFirstTimestepMonths tm = m_first_timestep_months tm"

definition getFirstTimestepYears :: "TimeMap \<Rightarrow> nat list" where
  "getFirstTimestepYears tm = m_first_timestep_years tm"

definition closest :: "nat list \<Rightarrow> nat \<Rightarrow> nat" where
  "closest vec v = (let ci = lower_bound vec v in if ci \<noteq> length vec then vec ! ci else 0)"

text \<open>
  The distance of the two iterators, a \<open>ptrdiff_t\<close>, is narrowed to the \<open>int\<close> \<open>dist\<close>. In
  \<open>dist % frequency\<close> the \<open>int\<close> is converted to \<open>size_t\<close>. The only caller passes a
  frequency above 1 (a frequency 0 here would divide by zero, which is undefined).
\<close>

definition isTimestepInFreqSequence :: "TimeMap \<Rightarrow> nat \<Rightarrow> nat \<Rightarrow> nat \<Rightarrow> bool \<Rightarrow> bool" where
  "isTimestepInFreqSequence tm timestep start_timestep frequency years =
     (let timesteps = (if years then getFirstTimestepYears tm else getFirstTimestepMonths tm);
          ci_timestep = std_find timesteps timestep;
          ci_start0 = std_find timesteps start_timestep;
          (start_ts_in_timesteps, ci_start_timestep) =
             (if ci_start0 \<noteq> length timesteps then (True, ci_start0)
              else (let new_start = closest timesteps start_timestep
                    in if 0 \<noteq> new_start then (True, std_find timesteps new_start)
                       else (False, ci_start0)))
      in if start_ts_in_timesteps then
           (if ci_timestep \<ge> ci_start_timestep then
              (let dist = int_wrap (int ci_timestep - int ci_start_timestep + 1)
               in size_t_wrap dist mod frequency = 0)
            else False)
         else False)"

definition isTimestepInFirstOfMonthsYearsSequence ::
    "TimeMap \<Rightarrow> nat \<Rightarrow> bool \<Rightarrow> nat \<Rightarrow> nat \<Rightarrow> bool" where
  "isTimestepInFirstOfMonthsYearsSequence tm timestep years start_timestep frequency =
     (let timesteps = (if years then getFirstTimestepYears tm else getFirstTimestepMonths tm);
          ci_timestep = std_find timesteps timestep
      in if ci_timestep \<noteq> length timesteps then
           (if 1 \<ge> frequency then True
            else isTimestepInFreqSequence tm timestep start_timestep frequency years)
         else False)"

subsection \<open>The words of the specification\<close>

text \<open>
  The rule of the specification for the periodic query, in its own words, to be compared
  with the code above. \<open>rank_in S x\<close> is the 1-based rank of \<open>x\<close> within the ordered index
  set \<open>S\<close>. \<open>period_anchor S p\<close> is \<open>p\<close> when it is a boundary, else the smallest element of
  \<open>S\<close> that is at least \<open>p\<close>, if there is one. \<open>rank_from S a i\<close> is the rank of \<open>i\<close> counted
  from the rank of the anchor \<open>a\<close>, the anchor counting as 1; an index before the anchor
  has no such rank.
\<close>

definition rank_in :: "nat list \<Rightarrow> nat \<Rightarrow> nat" where
  "rank_in S x = length (filter (\<lambda>y. y \<le> x) S)"

definition period_anchor :: "nat list \<Rightarrow> nat \<Rightarrow> nat option" where
  "period_anchor S p =
     (if p \<in> set S then Some p
      else if filter (\<lambda>x. p \<le> x) S = [] then None
      else Some (Min (set (filter (\<lambda>x. p \<le> x) S))))"

definition rank_from :: "nat list \<Rightarrow> nat \<Rightarrow> nat \<Rightarrow> nat option" where
  "rank_from S a i =
     (if rank_in S a \<le> rank_in S i then Some (rank_in S i - rank_in S a + 1) else None)"

text \<open>The invariant of a time map.\<close>

definition strictly_increasing :: "('a::linorder) list \<Rightarrow> bool" where
  "strictly_increasing xs = sorted_wrt (<) xs"

definition timeline_invariant :: "TimeMap \<Rightarrow> bool" where
  "timeline_invariant tm =
     (strictly_increasing (m_timeList tm) \<and> 1 \<le> length (m_timeList tm)
      \<and> strictly_increasing (m_first_timestep_months tm)
      \<and> (\<forall>i \<in> set (m_first_timestep_months tm). 0 < i \<and> i < length (m_timeList tm))
      \<and> strictly_increasing (m_first_timestep_years tm)
      \<and> (\<forall>i \<in> set (m_first_timestep_years tm). 0 < i \<and> i < length (m_timeList tm)))"

text \<open>
  The month number and the year of a timestamp in the UTC calendar, as \<open>addTime\<close> reads
  them, and the times that a list of day-counts adds after a time \<open>t\<close>.
\<close>

definition utc_month :: "int \<Rightarrow> int" where
  "utc_month t = fst (snd (util_set_date_values_utc t))"

definition utc_year :: "int \<Rightarrow> int" where
  "utc_year t = snd (snd (util_set_date_values_utc t))"

fun tstep_times :: "int \<Rightarrow> rat list \<Rightarrow> int list" where
  "tstep_times t [] = []"
| "tstep_times t (days # rest) = (t + tstep_seconds days) # tstep_times (t + tstep_seconds days) rest"

section \<open>Properties\<close>

subsection \<open>Rounding to double precision\<close>

lemma pow2_powi: "pow2 e = 2 powi e"
  by (cases "0 \<le> e") (simp_all add: pow2_def power_int_def power_one_over)

lemma pow2_pos: "0 < pow2 e"
  by (simp add: pow2_def)

lemma pow2_add: "pow2 (a + b) = pow2 a * pow2 b"
  by (simp add: pow2_powi power_int_add)

lemma pow2_less: "a < b \<Longrightarrow> pow2 a < pow2 b"
  by (simp add: pow2_powi power_int_strict_increasing)

lemma pow2_less_iff: "pow2 a < pow2 b \<longleftrightarrow> a < b"
proof
  assume h: "pow2 a < pow2 b"
  show "a < b"
  proof (rule ccontr)
    assume "\<not> a < b"
    then have "b = a \<or> b < a" by arith
    then have "pow2 b \<le> pow2 a" using pow2_less [of b a] by auto
    with h show False by simp
  qed
qed (rule pow2_less)

lemma bitlen_nonneg: "0 \<le> bitlen k"
proof (induction k rule: bitlen.induct)
  case (1 k)
  then show ?case by (subst bitlen.simps) auto
qed

lemma bitlen_pos: "0 < k \<Longrightarrow> 1 \<le> bitlen k"
  using bitlen_nonneg [of "k div 2"] by (subst bitlen.simps) auto

lemma bitlen_bounds: "0 < k \<Longrightarrow> 2 ^ nat (bitlen k - 1) \<le> k \<and> k < 2 ^ nat (bitlen k)"
proof (induction k rule: bitlen.induct)
  case (1 k)
  show ?case
  proof (cases "0 < k div 2")
    case True
    with 1 have ih: "2 ^ nat (bitlen (k div 2) - 1) \<le> k div 2" "k div 2 < 2 ^ nat (bitlen (k div 2))"
      by auto
    have b: "bitlen k = 1 + bitlen (k div 2)" using 1(2) by (simp add: bitlen.simps [of k])
    have p: "1 \<le> bitlen (k div 2)" using True by (rule bitlen_pos)
    have e1: "nat (bitlen k - 1) = Suc (nat (bitlen (k div 2) - 1))" using b p by simp
    have e2: "nat (bitlen k) = Suc (nat (bitlen (k div 2)))" using b p by simp
    have "2 * 2 ^ nat (bitlen (k div 2) - 1) \<le> 2 * (k div 2)" using ih(1) by simp
    also have "\<dots> \<le> k" by simp
    finally have l: "2 ^ nat (bitlen k - 1) \<le> k" by (simp add: e1)
    have "k div 2 + 1 \<le> 2 ^ nat (bitlen (k div 2))" using ih(2) by simp
    then have "2 * (k div 2) + 2 \<le> 2 * 2 ^ nat (bitlen (k div 2))" by simp
    moreover have "k < 2 * (k div 2) + 2" by presburger
    ultimately have u: "k < 2 ^ nat (bitlen k)" by (simp add: e2)
    from l u show ?thesis by simp
  next
    case False
    with 1(2) have k1: "k = 1" by presburger
    show ?thesis unfolding k1 by (simp add: bitlen.simps)
  qed
qed

lemma ilog2_bounds:
  assumes "0 < x"
  shows "pow2 (ilog2 x) \<le> x \<and> x < pow2 (ilog2 x + 1)"
proof (cases "1 \<le> x")
  case True
  define k where "k = \<lfloor>x\<rfloor>"
  have kpos: "0 < k" using True by (simp add: k_def)
  have e: "ilog2 x = bitlen k - 1" using True by (simp add: ilog2_def k_def)
  have bp: "1 \<le> bitlen k" using kpos by (rule bitlen_pos)
  from bitlen_bounds [OF kpos] have l: "2 ^ nat (bitlen k - 1) \<le> k" and u: "k < 2 ^ nat (bitlen k)" by auto
  have "(of_int (2 ^ nat (bitlen k - 1)) :: rat) \<le> of_int k" using l by (simp only: of_int_le_iff)
  also have "\<dots> \<le> x" by (simp add: k_def)
  finally have l': "pow2 (bitlen k - 1) \<le> x" using bp by (simp add: pow2_def)
  have "k + 1 \<le> 2 ^ nat (bitlen k)" using u by simp
  then have "(of_int (k + 1) :: rat) \<le> of_int (2 ^ nat (bitlen k))" by (simp only: of_int_le_iff)
  moreover have "x < of_int (k + 1)" unfolding k_def by linarith
  ultimately have u': "x < pow2 (bitlen k)" using bp by (simp add: pow2_def)
  from l' u' show ?thesis by (simp add: e)
next
  case False
  define y where "y = 1 / x"
  define k where "k = \<lceil>y\<rceil> - 1"
  have y1: "1 < y" using False assms by (simp add: y_def)
  have kpos: "0 < k" using y1 unfolding k_def by linarith
  have ky: "of_int k < y" "y \<le> of_int (k + 1)" unfolding k_def by linarith+
  have e: "ilog2 x = - bitlen k" using False by (simp add: ilog2_def k_def y_def)
  have bp: "1 \<le> bitlen k" using kpos by (rule bitlen_pos)
  from bitlen_bounds [OF kpos] have l: "2 ^ nat (bitlen k - 1) \<le> k" and u: "k < 2 ^ nat (bitlen k)" by auto
  have "(of_int (2 ^ nat (bitlen k - 1)) :: rat) \<le> of_int k" using l by (simp only: of_int_le_iff)
  then have "(2::rat) ^ nat (bitlen k - 1) \<le> of_int k" by simp
  with ky(1) have l': "2 ^ nat (bitlen k - 1) < y" by linarith
  have "k + 1 \<le> 2 ^ nat (bitlen k)" using u by simp
  then have "(of_int (k + 1) :: rat) \<le> of_int (2 ^ nat (bitlen k))" by (simp only: of_int_le_iff)
  then have "(of_int (k + 1) :: rat) \<le> 2 ^ nat (bitlen k)" by simp
  with ky(2) have u': "y \<le> 2 ^ nat (bitlen k)" by linarith
  have xy: "x = 1 / y" using assms by (simp add: y_def)
  have "1 / 2 ^ nat (bitlen k) \<le> x" unfolding xy using u' y1
    by (intro divide_left_mono) (auto intro: mult_pos_pos)
  then have a: "pow2 (- bitlen k) \<le> x" using bp by (simp add: pow2_def)
  have "x < 1 / 2 ^ nat (bitlen k - 1)" unfolding xy using l' y1
    by (intro divide_strict_left_mono) (auto intro: mult_pos_pos)
  moreover have "pow2 (- bitlen k + 1) = 1 / 2 ^ nat (bitlen k - 1)"
    using bp by (cases "bitlen k = 1") (auto simp add: pow2_def intro: arg_cong)
  ultimately have b: "x < pow2 (- bitlen k + 1)" by simp
  from a b show ?thesis by (simp add: e)
qed

lemma ilog2_unique:
  assumes "pow2 e \<le> x" "x < pow2 (e + 1)"
  shows "ilog2 x = e"
proof -
  have xpos: "0 < x" using assms(1) pow2_pos [of e] by simp
  from ilog2_bounds [OF xpos] have l: "pow2 (ilog2 x) \<le> x" and u: "x < pow2 (ilog2 x + 1)" by auto
  have "pow2 e < pow2 (ilog2 x + 1)" using assms(1) u by simp
  then have a: "e < ilog2 x + 1" by (simp only: pow2_less_iff)
  have "pow2 (ilog2 x) < pow2 (e + 1)" using assms(2) l by simp
  then have b: "ilog2 x < e + 1" by (simp only: pow2_less_iff)
  from a b show ?thesis by simp
qed

lemma round_half_even_int: "round_half_even (of_int n) = n"
  by (simp add: round_half_even_def)

lemma round_double_exact:
  assumes "x = of_int n * pow2 (max (ilog2 \<bar>x\<bar>) (- 1022) - 52)"
  shows "round_double x = x"
proof (cases "x = 0")
  case True
  then show ?thesis by (simp add: round_double_def)
next
  case False
  define u where "u = pow2 (max (ilog2 \<bar>x\<bar>) (- 1022) - 52)"
  have upos: "0 < u" unfolding u_def by (rule pow2_pos)
  have xu: "x = of_int n * u" using assms by (simp add: u_def)
  then have "x / u = of_int n" using upos by simp
  then have "round_half_even (x / u) = n" by (simp add: round_half_even_int)
  then have "of_int (round_half_even (x / u)) * u = x" using xu by simp
  then show ?thesis using False by (simp add: round_double_def Let_def u_def)
qed

lemma double_of_int_exact:
  assumes "\<bar>k\<bar> < 2 ^ 53"
  shows "double_of_int k = of_int k"
proof (cases "k = 0")
  case True
  then show ?thesis by (simp add: double_of_int_def round_double_def)
next
  case False
  define x :: rat where "x = of_int k"
  define e where "e = ilog2 \<bar>x\<bar>"
  have x1: "1 \<le> \<bar>x\<bar>" using False unfolding x_def by (simp flip: of_int_abs)
  then have xpos: "0 < \<bar>x\<bar>" by linarith
  from ilog2_bounds [OF xpos] have l: "pow2 e \<le> \<bar>x\<bar>" and u: "\<bar>x\<bar> < pow2 (e + 1)"
    by (auto simp: e_def)
  have "\<bar>x\<bar> < 2 ^ 53" using assms unfolding x_def
    by (metis of_int_abs of_int_less_iff of_int_numeral of_int_power)
  then have "\<bar>x\<bar> < pow2 53" by (simp add: pow2_def)
  with l have "pow2 e < pow2 53" by simp
  then have e53: "e < 53" by (simp only: pow2_less_iff)
  have "pow2 0 < pow2 (e + 1)" using x1 u by (simp add: pow2_def)
  then have "0 < e + 1" by (simp only: pow2_less_iff)
  then have e0: "0 \<le> e" by simp
  have m: "max e (- 1022) = e" using e0 by simp
  have "pow2 (e - 52) * pow2 (52 - e) = 1" using pow2_add [of "e - 52" "52 - e"] by (simp add: pow2_def)
  moreover have "pow2 (52 - e) = of_int (2 ^ nat (52 - e))" using e53 by (simp add: pow2_def)
  ultimately have "x = of_int (k * 2 ^ nat (52 - e)) * pow2 (e - 52)"
    by (simp add: x_def mult.assoc mult.commute)
  then have "round_double x = x" using m by (intro round_double_exact [where n = "k * 2 ^ nat (52 - e)"]) (simp add: e_def)
  then show ?thesis by (simp add: double_of_int_def x_def)
qed

lemma round_double_int: "\<bar>k\<bar> < 2 ^ 53 \<Longrightarrow> round_double (of_int k) = of_int k"
  using double_of_int_exact by (simp add: double_of_int_def)

subsection \<open>Appending keeps the invariant\<close>

lemma strictly_increasing_le_last:
  "sorted_wrt (<) xs \<Longrightarrow> x \<in> set xs \<Longrightarrow> (x::'a::linorder) \<le> last xs"
proof (induction xs)
  case Nil
  then show ?case by simp
next
  case (Cons a xs)
  show ?case
  proof (cases "xs = []")
    case True
    then show ?thesis using Cons.prems by simp
  next
    case False
    then have l: "last xs \<in> set xs" by simp
    show ?thesis
    proof (cases "x = a")
      case True
      then show ?thesis using Cons.prems(1) l False by (auto simp: less_imp_le)
    next
      case False
      then show ?thesis using Cons \<open>xs \<noteq> []\<close> by auto
    qed
  qed
qed

lemma strictly_increasing_snoc:
  "strictly_increasing (xs @ [t]) \<longleftrightarrow> strictly_increasing xs \<and> (\<forall>x \<in> set xs. x < t)"
  by (auto simp: strictly_increasing_def sorted_wrt_append)

lemma addTime_accept:
  assumes "last (m_timeList tm) < t"
  shows "addTime t tm =
     (Inr (), tm\<lparr>m_timeList := m_timeList tm @ [t],
               m_first_timestep_months := m_first_timestep_months tm @
                  (if fst (snd (util_set_date_values_utc t)) \<noteq> fst (snd (util_set_date_values_utc (last (m_timeList tm))))
                   then [length (m_timeList tm)] else []),
               m_first_timestep_years := m_first_timestep_years tm @
                  (if snd (snd (util_set_date_values_utc t)) \<noteq> snd (snd (util_set_date_values_utc (last (m_timeList tm))))
                   then [length (m_timeList tm)] else [])\<rparr>)"
  using assms by (simp add: addTime_def Let_def split: prod.splits)

lemma addTime_reject:
  assumes "t \<le> last (m_timeList tm)"
  shows "addTime t tm = (Inl OrderingViolation, tm)"
  using assms by (simp add: addTime_def)

lemma addTime_invariant:
  assumes "timeline_invariant tm"
  shows "timeline_invariant (snd (addTime t tm))"
proof (cases "last (m_timeList tm) < t")
  case True
  have ne: "m_timeList tm \<noteq> []" using assms by (auto simp: timeline_invariant_def)
  have lt: "\<forall>x \<in> set (m_timeList tm). x < t"
    using assms True strictly_increasing_le_last [of "m_timeList tm"]
    by (fastforce simp: timeline_invariant_def strictly_increasing_def)
  show ?thesis
    using assms lt ne unfolding addTime_accept [OF True] timeline_invariant_def
    by (auto simp: strictly_increasing_snoc less_Suc_eq)
next
  case False
  then show ?thesis using assms by (simp add: addTime_reject)
qed

lemma addTStep_invariant:
  "timeline_invariant tm \<Longrightarrow> timeline_invariant (snd (addTStep s tm))"
  by (simp add: addTStep_def addTime_invariant)

lemma TimeMap_start_invariant: "timeline_invariant (TimeMap_start t)"
  by (simp add: TimeMap_start_def timeline_invariant_def strictly_increasing_def)

lemma addFromTSTEP_values_invariant:
  "timeline_invariant tm \<Longrightarrow> timeline_invariant (snd (addFromTSTEP_values vs tm))"
proof (induction vs arbitrary: tm)
  case Nil
  then show ?case by simp
next
  case (Cons v vs)
  show ?case
  proof (cases v)
    case (DoubleValue days)
    obtain r tm' where st: "addTStep (tstep_seconds days) tm = (r, tm')" by (cases "addTStep (tstep_seconds days) tm")
    have inv': "timeline_invariant tm'" using addTStep_invariant [OF Cons.prems, of "tstep_seconds days"] st by simp
    show ?thesis using DoubleValue st inv' Cons.IH [OF inv'] by (cases r) simp_all
  qed (use Cons.prems in simp_all)
qed

lemma addFromTSTEPKeyword_invariant:
  "timeline_invariant tm \<Longrightarrow> timeline_invariant (snd (addFromTSTEPKeyword kw tm))"
  by (auto simp: addFromTSTEPKeyword_def addFromTSTEP_values_invariant split: sum.splits)

lemma addFromDATES_records_invariant:
  "timeline_invariant tm \<Longrightarrow> timeline_invariant (snd (addFromDATES_records rs tm))"
proof (induction rs arbitrary: tm)
  case Nil
  then show ?case by simp
next
  case (Cons r rs)
  show ?case
  proof (cases "timeFromEclipse r")
    case (Inl e)
    then show ?thesis using Cons.prems by simp
  next
    case (Inr nextTime)
    obtain res tm' where st: "addTime nextTime tm = (res, tm')" by (cases "addTime nextTime tm")
    have inv': "timeline_invariant tm'" using addTime_invariant [OF Cons.prems, of nextTime] st by simp
    show ?thesis using Inr st inv' Cons.IH [OF inv'] by (cases res) simp_all
  qed
qed

lemma addFromDATESKeyword_invariant:
  "timeline_invariant tm \<Longrightarrow> timeline_invariant (snd (addFromDATESKeyword kw tm))"
  by (simp add: addFromDATESKeyword_def addFromDATES_records_invariant)

lemma add_keywords_invariant:
  "timeline_invariant tm \<Longrightarrow> timeline_invariant (snd (add_keywords deck tm))"
proof (induction deck arbitrary: tm)
  case Nil
  then show ?case by simp
next
  case (Cons keyword rest)
  show ?case
  proof (cases "kw_name keyword = ''TSTEP''")
    case True
    obtain res tm' where st: "addFromTSTEPKeyword keyword tm = (res, tm')" by (cases "addFromTSTEPKeyword keyword tm")
    have inv': "timeline_invariant tm'" using addFromTSTEPKeyword_invariant [OF Cons.prems, of keyword] st by simp
    show ?thesis using True st inv' Cons.IH [OF inv'] by (cases res) simp_all
  next
    case nt: False
    show ?thesis
    proof (cases "kw_name keyword = ''DATES''")
      case True
      obtain res tm' where st: "addFromDATESKeyword keyword tm = (res, tm')" by (cases "addFromDATESKeyword keyword tm")
      have inv': "timeline_invariant tm'" using addFromDATESKeyword_invariant [OF Cons.prems, of keyword] st by simp
      show ?thesis using True nt st inv' Cons.IH [OF inv'] by (cases res) simp_all
    next
      case False
      then show ?thesis using nt Cons.IH [OF Cons.prems] by simp
    qed
  qed
qed

lemma TimeMap_deck_invariant:
  assumes "TimeMap_deck deck = Inr tm"
  shows "timeline_invariant tm"
proof -
  from assms obtain t where "add_keywords deck (TimeMap_start t) = (Inr (), tm)"
    by (auto simp: TimeMap_deck_def split: sum.splits prod.splits if_splits)
  then show ?thesis
    using add_keywords_invariant [OF TimeMap_start_invariant, of deck t] by simp
qed

subsection \<open>Positions, ranks and the closest boundary\<close>

lemma std_find_le: "std_find xs v \<le> length xs"
  by (induction xs) auto

lemma std_find_end_iff: "std_find xs v = length xs \<longleftrightarrow> v \<notin> set xs"
  using std_find_le [of _ v] by (induction xs) (auto simp: le_Suc_eq)

lemma std_find_nth: "v \<in> set xs \<Longrightarrow> std_find xs v < length xs \<and> xs ! std_find xs v = v"
  by (induction xs) auto

lemma rank_in_std_find:
  "sorted_wrt (<) xs \<Longrightarrow> v \<in> set xs \<Longrightarrow> rank_in xs v = Suc (std_find xs v)"
proof (induction xs)
  case Nil
  then show ?case by simp
next
  case (Cons x xs)
  show ?case
  proof (cases "x = v")
    case True
    have "filter (\<lambda>y. y \<le> v) xs = []" using Cons.prems(1) True by (auto simp: filter_empty_conv)
    then show ?thesis using True by (simp add: rank_in_def)
  next
    case False
    then have v: "v \<in> set xs" using Cons.prems by simp
    then have "x < v" using Cons.prems(1) by auto
    then show ?thesis using Cons.IH v Cons.prems(1) False by (auto simp add: rank_in_def)
  qed
qed

lemma sorted_dropWhile_filter:
  "sorted_wrt (<) xs \<Longrightarrow> dropWhile (\<lambda>x. x < p) xs = filter (\<lambda>x. (p::nat) \<le> x) xs"
proof (induction xs)
  case Nil
  then show ?case by simp
next
  case (Cons x xs)
  show ?case
  proof (cases "x < p")
    case True
    then show ?thesis using Cons by simp
  next
    case False
    then have "\<forall>y \<in> set xs. p \<le> y" using Cons.prems by auto
    then have "filter (\<lambda>x. p \<le> x) xs = xs" by (simp add: filter_id_conv)
    then show ?thesis using False by simp
  qed
qed

lemma sorted_hd_Min:
  "sorted_wrt (<) xs \<Longrightarrow> xs \<noteq> [] \<Longrightarrow> hd xs = Min (set (xs::nat list))"
  by (cases xs) (auto intro!: Min_eqI [symmetric] simp: less_imp_le)

lemma closest_sorted:
  assumes "sorted_wrt (<) xs"
  shows "closest xs p =
     (if filter (\<lambda>x. p \<le> x) xs = [] then 0 else Min (set (filter (\<lambda>x. p \<le> x) xs)))"
proof -
  let ?d = "dropWhile (\<lambda>x. x < p) xs"
  have d: "?d = filter (\<lambda>x. p \<le> x) xs" using assms by (rule sorted_dropWhile_filter)
  have len: "length (takeWhile (\<lambda>x. x < p) xs) = length xs \<longleftrightarrow> ?d = []"
    by (metis append_Nil2 append_eq_conv_conj length_append takeWhile_dropWhile_id add_cancel_right_right length_0_conv)
  show ?thesis
  proof (cases "?d = []")
    case True
    then show ?thesis using len d by (simp add: closest_def lower_bound_def)
  next
    case False
    obtain y ys where dy: "?d = y # ys" using False by (cases ?d) auto
    have "xs = takeWhile (\<lambda>x. x < p) xs @ y # ys" using dy by (metis takeWhile_dropWhile_id)
    then have "xs ! length (takeWhile (\<lambda>x. x < p) xs) = y" by (metis nth_append_length)
    then have "xs ! length (takeWhile (\<lambda>x. x < p) xs) = hd ?d" using dy by simp
    moreover have "sorted_wrt (<) ?d" using assms d by (simp add: sorted_wrt_filter)
    ultimately have "xs ! length (takeWhile (\<lambda>x. x < p) xs) = Min (set ?d)"
      using False sorted_hd_Min by simp
    then show ?thesis using False len d by (simp add: closest_def lower_bound_def)
  qed
qed

lemma int_wrap_id: "- (2 ^ 31) \<le> k \<Longrightarrow> k < 2 ^ 31 \<Longrightarrow> int_wrap k = k"
  by (simp add: int_wrap_def)

lemma size_t_wrap_id: "0 \<le> k \<Longrightarrow> k < 2 ^ 64 \<Longrightarrow> size_t_wrap k = nat k"
  by (simp add: size_t_wrap_def)

lemma dist_mod:
  assumes "a \<le> i" "i < n" "n < 2 ^ 31"
  shows "size_t_wrap (int_wrap (int i - int a + 1)) mod f = (i - a + 1) mod f"
proof -
  have b: "int i - int a + 1 = int (i - a + 1)" using assms by simp
  have "int (i - a + 1) < 2 ^ 31" using assms by simp
  then have w: "int_wrap (int (i - a + 1)) = int (i - a + 1)" by (intro int_wrap_id) simp_all
  have "int (i - a + 1) < 2 ^ 64" using \<open>int (i - a + 1) < 2 ^ 31\<close> by simp
  then have "size_t_wrap (int (i - a + 1)) = i - a + 1" by (subst size_t_wrap_id) simp_all
  then show ?thesis by (simp only: b w)
qed

text \<open>What the code computes for an index of the set and a frequency above 1.\<close>

lemma freq_sequence_sorted:
  assumes S: "S = (if years then m_first_timestep_years tm else m_first_timestep_months tm)"
    and sorted: "sorted_wrt (<) S" and len: "length S < 2 ^ 31"
    and idx: "index \<in> set S"
  shows "isTimestepInFreqSequence tm index p frequency years =
     (case period_anchor S p of
        None \<Rightarrow> False
      | Some a \<Rightarrow> (case rank_from S a index of None \<Rightarrow> False | Some r \<Rightarrow> r mod frequency = 0))"
proof -
  have ts: "(if years then getFirstTimestepYears tm else getFirstTimestepMonths tm) = S"
    by (simp add: S getFirstTimestepYears_def getFirstTimestepMonths_def)
  have ipos: "std_find S index < length S" using idx by (simp add: std_find_nth)
  have irank: "rank_in S index = Suc (std_find S index)" using sorted idx by (rule rank_in_std_find)
  have core: "(std_find S a \<le> std_find S index \<and>
                size_t_wrap (int_wrap (int (std_find S index) - int (std_find S a) + 1)) mod frequency = 0)
      = (case rank_from S a index of None \<Rightarrow> False | Some r \<Rightarrow> r mod frequency = 0)"
    if a: "a \<in> set S" for a
  proof -
    have arank: "rank_in S a = Suc (std_find S a)" using sorted a by (rule rank_in_std_find)
    show ?thesis
    proof (cases "std_find S a \<le> std_find S index")
      case True
      then show ?thesis using dist_mod [OF True ipos len, of frequency]
        by (simp add: rank_from_def arank irank)
    next
      case False
      then show ?thesis by (simp add: rank_from_def arank irank)
    qed
  qed
  show ?thesis
  proof (cases "p \<in> set S")
    case True
    then have f: "std_find S p \<noteq> length S" by (simp add: std_find_end_iff)
    have pa: "period_anchor S p = Some p" using True by (simp add: period_anchor_def)
    show ?thesis using core [OF True] f
      by (auto simp add: isTimestepInFreqSequence_def ts Let_def pa)
  next
    case False
    then have f: "std_find S p = length S" by (simp add: std_find_end_iff)
    show ?thesis
    proof (cases "filter (\<lambda>x. p \<le> x) S = []")
      case True
      then have c: "closest S p = 0" using closest_sorted [OF sorted, of p] by simp
      have pa: "period_anchor S p = None" using True False by (simp add: period_anchor_def)
      show ?thesis by (simp add: isTimestepInFreqSequence_def ts Let_def pa f c)
    next
      case ne: False
      define a where "a = Min (set (filter (\<lambda>x. p \<le> x) S))"
      have c: "closest S p = a" using closest_sorted [OF sorted, of p] ne by (simp add: a_def)
      have "set (filter (\<lambda>x. p \<le> x) S) \<noteq> {}" using ne by (metis set_empty2)
      then have "a \<in> set (filter (\<lambda>x. p \<le> x) S)" unfolding a_def by (intro Min_in) simp_all
      then have aS: "a \<in> set S" and pa': "p \<le> a" by auto
      have "a \<noteq> p" using aS False by auto
      then have a0: "a \<noteq> 0" using pa' by simp
      have pa: "period_anchor S p = Some a" using ne False by (simp add: period_anchor_def a_def)
      show ?thesis using core [OF aS] a0
        by (auto simp add: isTimestepInFreqSequence_def ts Let_def pa f c)
    qed
  qed
qed

subsection \<open>Wrap-around, and durations that are not positive\<close>

lemma int64_wrap_id: "is_int64 k \<Longrightarrow> int64_wrap k = k"
  by (simp add: is_int64_def int64_wrap_def)

lemma is_int64_wrap: "is_int64 (int64_wrap k)"
proof -
  have "0 \<le> (k + 2 ^ 63) mod 2 ^ 64" "(k + 2 ^ 63) mod 2 ^ 64 < 2 ^ 64"
    by simp_all
  then show ?thesis by (simp add: is_int64_def int64_wrap_def)
qed

lemma int64_wrap_above:
  assumes "2 ^ 63 \<le> k" "k < 2 ^ 64"
  shows "int64_wrap k = k - 2 ^ 64"
proof -
  have "k + 2 ^ 63 = k - 2 ^ 63 + 2 ^ 64" by simp
  then have "(k + 2 ^ 63) mod 2 ^ 64 = (k - 2 ^ 63 + 2 ^ 64) mod 2 ^ 64" by (simp only:)
  also have "\<dots> = (k - 2 ^ 63) mod 2 ^ 64" by (rule mod_add_self2)
  also have "\<dots> = k - 2 ^ 63" using assms by (intro mod_pos_pos_trivial) simp_all
  finally show ?thesis by (simp add: int64_wrap_def)
qed

lemma is_int64_of_double: "is_int64 (int64_of_double x)"
  by (simp add: int64_of_double_def Let_def is_int64_def)

lemma int64_of_double_floor:
  "1 \<le> x \<Longrightarrow> x < 2 ^ 63 \<Longrightarrow> int64_of_double x = \<lfloor>x\<rfloor> \<and> 0 < int64_of_double x"
proof -
  assume a: "1 \<le> x" "x < 2 ^ 63"
  have l: "1 \<le> \<lfloor>x\<rfloor>" using a(1) by linarith
  have "\<lfloor>x\<rfloor> < 2 ^ 63" using a(2) by (simp add: floor_less_iff)
  then show ?thesis using a(1) l by (simp add: int64_of_double_def Let_def is_int64_def)
qed

lemma round_half_even_nonpos: "y \<le> 0 \<Longrightarrow> round_half_even y \<le> 0"
proof -
  assume y: "y \<le> 0"
  have f: "\<lfloor>y\<rfloor> \<le> 0" using y by linarith
  show ?thesis
  proof (cases "\<lfloor>y\<rfloor> = 0")
    case True
    then have "y = 0" using y by linarith
    then show ?thesis by (simp add: round_half_even_def)
  next
    case False
    then have "\<lfloor>y\<rfloor> + 1 \<le> 0" using f by linarith
    then show ?thesis using f by (simp add: round_half_even_def Let_def)
  qed
qed

lemma round_double_nonpos: "x \<le> 0 \<Longrightarrow> round_double x \<le> 0"
proof -
  assume x: "x \<le> 0"
  define u where "u = pow2 (max (ilog2 \<bar>x\<bar>) (- 1022) - 52)"
  have upos: "0 < u" unfolding u_def by (rule pow2_pos)
  have "x / u \<le> 0" using x upos by (simp add: divide_nonpos_pos)
  then have "round_half_even (x / u) \<le> 0" by (rule round_half_even_nonpos)
  then have "(of_int (round_half_even (x / u)) :: rat) \<le> 0" by simp
  then have "of_int (round_half_even (x / u)) * u \<le> 0" using upos by (simp add: mult_le_0_iff)
  then show ?thesis by (simp add: round_double_def Let_def u_def)
qed

lemma tstep_seconds_nonpos: "days \<le> 0 \<Longrightarrow> tstep_seconds days \<le> 0"
proof -
  assume d: "days \<le> 0"
  have a: "double_mult days 24 \<le> 0" using d by (simp add: double_mult_def round_double_nonpos mult_le_0_iff)
  have b: "double_mult (double_mult days 24) 60 \<le> 0"
    using a by (simp add: double_mult_def round_double_nonpos mult_le_0_iff)
  have c: "tstep_product days \<le> 0"
    using b by (simp add: tstep_product_def double_mult_def round_double_nonpos mult_le_0_iff)
  show ?thesis using c unfolding tstep_seconds_def int64_of_double_def Let_def
    by (auto simp: ceiling_le_zero)
qed

lemma forward_in_range: "is_int64 (t + seconds) \<Longrightarrow> forward t seconds = t + seconds"
  by (simp add: forward_def int64_wrap_id)

lemma addTStep_reject:
  assumes "is_int64 (last (m_timeList tm))" and "delta \<le> 0"
    and "- (2 ^ 63) \<le> last (m_timeList tm) + delta"
  shows "addTStep delta tm = (Inl OrderingViolation, tm)"
proof -
  have "is_int64 (last (m_timeList tm) + delta)" using assms by (simp add: is_int64_def)
  then have "forward (last (m_timeList tm)) delta = last (m_timeList tm) + delta"
    by (rule forward_in_range)
  then show ?thesis using assms(2) by (simp add: addTStep_def addTime_reject)
qed

lemma addTStep_accept:
  assumes "is_int64 (last (m_timeList tm))" and "0 < s" and "last (m_timeList tm) + s < 2 ^ 63"
  shows "fst (addTStep s tm) = Inr ()
       \<and> m_timeList (snd (addTStep s tm)) = m_timeList tm @ [last (m_timeList tm) + s]"
proof -
  have "is_int64 (last (m_timeList tm) + s)" using assms by (simp add: is_int64_def)
  then have "forward (last (m_timeList tm)) s = last (m_timeList tm) + s"
    by (rule forward_in_range)
  then show ?thesis using assms(2) by (simp add: addTStep_def addTime_accept)
qed

lemma addTStep_overflow:
  assumes "is_int64 (last (m_timeList tm))" and "0 < s" and "s < 2 ^ 63"
    and "2 ^ 63 \<le> last (m_timeList tm) + s"
  shows "addTStep s tm = (Inl OrderingViolation, tm)"
proof -
  have "last (m_timeList tm) + s < 2 ^ 64" using assms(1,3) by (simp add: is_int64_def)
  then have "forward (last (m_timeList tm)) s = last (m_timeList tm) + s - 2 ^ 64"
    using assms(4) by (simp add: forward_def int64_wrap_above)
  then have "forward (last (m_timeList tm)) s \<le> last (m_timeList tm)" using assms(3) by simp
  then show ?thesis by (simp add: addTStep_def addTime_reject)
qed

subsection \<open>The month table\<close>

lemma eclipseMonthIndices_table:
  "eclipseMonthIndices k =
     (if k = ''JAN'' then Some 1 else if k = ''FEB'' then Some 2 else if k = ''MAR'' then Some 3
      else if k = ''APR'' then Some 4 else if k = ''MAY'' \<or> k = ''MAI'' then Some 5
      else if k = ''JUN'' then Some 6 else if k = ''JUL'' \<or> k = ''JLY'' then Some 7
      else if k = ''AUG'' then Some 8 else if k = ''SEP'' then Some 9
      else if k = ''OCT'' \<or> k = ''OKT'' then Some 10 else if k = ''NOV'' then Some 11
      else if k = ''DEC'' \<or> k = ''DES'' then Some 12 else None)"
  by (simp add: eclipseMonthIndices_def)

lemma timeFromEclipse_unknown_month:
  assumes "eclipseMonthIndices monthName = None" and "timeItem = [] \<or> timeItem = [StringValue str]"
  shows "timeFromEclipse [[IntValue day], [StringValue monthName], [IntValue year], timeItem]
           = Inl UnknownMonthName"
  using assms
  by (auto simp add: timeFromEclipse_def and_then_def getItem_def hasValue_def get_int_def
      get_string_def map_at_def split: option.splits)

subsection \<open>Day-counts\<close>

lemma tstep_seconds_sum_nonneg:
  "\<forall>d \<in> set days. 0 < tstep_seconds d \<Longrightarrow> 0 \<le> sum_list (map tstep_seconds days)"
  by (induction days) auto

lemma addFromTSTEP_values_positive:
  assumes "is_int64 (last (m_timeList tm))" and "\<forall>d \<in> set days. 0 < tstep_seconds d"
  shows "(fst (addFromTSTEP_values (map DoubleValue days) tm) = Inr ())
           = (last (m_timeList tm) + sum_list (map tstep_seconds days) < 2 ^ 63)
       \<and> (last (m_timeList tm) + sum_list (map tstep_seconds days) < 2 ^ 63 \<longrightarrow>
            m_timeList (snd (addFromTSTEP_values (map DoubleValue days) tm))
              = m_timeList tm @ tstep_times (last (m_timeList tm)) days)"
  using assms
proof (induction days arbitrary: tm)
  case Nil
  then show ?case by (simp add: is_int64_def)
next
  case (Cons d days)
  let ?s = "tstep_seconds d"
  let ?l = "last (m_timeList tm)"
  have pos: "0 < ?s" using Cons.prems(2) by simp
  have rest: "\<forall>d \<in> set days. 0 < tstep_seconds d" using Cons.prems(2) by simp
  have lim: "?s < 2 ^ 63"
    using is_int64_of_double [of "tstep_product d"] by (simp add: tstep_seconds_def is_int64_def)
  have nn: "0 \<le> sum_list (map tstep_seconds days)" using rest by (rule tstep_seconds_sum_nonneg)
  show ?case
  proof (cases "?l + ?s < 2 ^ 63")
    case True
    obtain r tm' where st: "addTStep ?s tm = (r, tm')" by (cases "addTStep ?s tm")
    have r: "r = Inr ()" and l: "m_timeList tm' = m_timeList tm @ [?l + ?s]"
      using addTStep_accept [OF Cons.prems(1) pos True] st by simp_all
    have l': "last (m_timeList tm') = ?l + ?s" by (simp add: l)
    have in': "is_int64 (last (m_timeList tm'))"
      using Cons.prems(1) pos True by (simp add: l' is_int64_def)
    have step: "addFromTSTEP_values (map DoubleValue (d # days)) tm
        = addFromTSTEP_values (map DoubleValue days) tm'"
      using st r by simp
    show ?thesis
      unfolding step using Cons.IH [OF in' rest] by (simp add: l l' add.assoc)
  next
    case False
    then have over: "2 ^ 63 \<le> ?l + ?s" by simp
    have "addTStep ?s tm = (Inl OrderingViolation, tm)"
      using Cons.prems(1) pos lim over by (rule addTStep_overflow)
    then show ?thesis using False nn by simp
  qed
qed

lemma length_tstep_times: "length (tstep_times t days) = length days"
  by (induction days arbitrary: t) simp_all

lemma tstep_seconds_exact:
  assumes "is_double (d * 24)" "is_double (d * 24 * 60)" "is_double (d * 24 * 60 * 60)"
  shows "tstep_product d = d * 86400"
proof -
  have "double_mult d 24 = d * 24" using assms(1) by (simp add: double_mult_def is_double_def)
  moreover have "double_mult (d * 24) 60 = d * 24 * 60"
    using assms(2) by (simp add: double_mult_def is_double_def)
  moreover have "double_mult (d * 24 * 60) 60 = d * 24 * 60 * 60"
    using assms(3) by (simp add: double_mult_def is_double_def)
  ultimately show ?thesis by (simp add: tstep_product_def mult.commute)
qed

lemma tstep_seconds_10: "tstep_seconds 10 = 864000"
  by code_simp

lemma tstep_seconds_5_5: "tstep_seconds (11 / 2) = 475200"
  by code_simp

lemma getTimeStepLength_three:
  assumes "m_timeList tm = [a, b, c]"
  shows "getTimeStepLength ndebug tm 0 = Returned (double_of_int (int64_wrap (b - a)))
       \<and> getTimeStepLength ndebug tm 1 = Returned (double_of_int (int64_wrap (c - b)))"
  using assms by (simp add: getTimeStepLength_def numTimesteps_def size_t_wrap_def)

lemma result_then:
  "(case p of (Inl e, tm') \<Rightarrow> Inl e | (Inr u, tm') \<Rightarrow> g tm') = Inr tm
     \<Longrightarrow> fst p = Inr () \<and> g (snd p) = Inr tm"
  by (cases p; cases "fst p") auto

lemma tstep_keyword_values:
  "addFromTSTEPKeyword \<lparr>kw_name = ''TSTEP'', kw_records = (map DoubleValue days # items) # records\<rparr> tm
     = addFromTSTEP_values (map DoubleValue days) tm"
  by (simp add: addFromTSTEPKeyword_def and_then_def getRecord_def getItem_def)

text \<open>A start date and the day-counts 10.0 and 5.5, in one keyword or in two.\<close>

lemma start_tstep_example:
  assumes tr: "timeFromEclipse r = Inr t" and it: "is_int64 t"
    and deck: "TimeMap_deck [\<lparr>kw_name = ''START'', kw_records = [r]\<rparr>,
                         \<lparr>kw_name = ''TSTEP'', kw_records = [[map DoubleValue [10, 11 / 2]]]\<rparr>]
           = Inr tm
         \<or> TimeMap_deck [\<lparr>kw_name = ''START'', kw_records = [r]\<rparr>,
                         \<lparr>kw_name = ''TSTEP'', kw_records = [[map DoubleValue [10]]]\<rparr>,
                         \<lparr>kw_name = ''TSTEP'', kw_records = [[map DoubleValue [11 / 2]]]\<rparr>]
           = Inr tm"
  shows "m_timeList tm = [t, t + 864000, t + 1339200]
       \<and> getTimeStepLength ndebug tm 0 = Returned 864000
       \<and> getTimeStepLength ndebug tm 1 = Returned 475200"
proof -
  let ?tm0 = "TimeMap_start t"
  have l0: "last (m_timeList ?tm0) = t" and m0: "m_timeList ?tm0 = [t]"
    by (simp_all add: TimeMap_start_def)
  have i0: "is_int64 (last (m_timeList ?tm0))" using it by (simp add: l0)
  have p2: "\<forall>d \<in> set [10, 11 / 2]. 0 < tstep_seconds d"
    by (simp add: tstep_seconds_10 tstep_seconds_5_5)
  have p10: "\<forall>d \<in> set [10]. 0 < tstep_seconds d" by (simp add: tstep_seconds_10)
  have p55: "\<forall>d \<in> set [11 / 2]. 0 < tstep_seconds d" by (simp add: tstep_seconds_5_5)
  have list: "m_timeList tm = [t, t + 864000, t + 1339200]"
    using deck
  proof
    assume d: "TimeMap_deck [\<lparr>kw_name = ''START'', kw_records = [r]\<rparr>,
                         \<lparr>kw_name = ''TSTEP'', kw_records = [[map DoubleValue [10, 11 / 2]]]\<rparr>]
           = Inr tm"
    let ?v = "addFromTSTEP_values (map DoubleValue [10, 11 / 2]) ?tm0"
    have "(case ?v of (Inl e, tm') \<Rightarrow> Inl e | (Inr u, tm') \<Rightarrow> Inr tm') = Inr tm"
      using d
      by (simp add: TimeMap_deck_def hasKeyword_def getKeyword_def getRecord_def and_then_def tr
          tstep_keyword_values del: addFromTSTEP_values.simps list.map split: prod.splits sum.splits)
    then have f: "fst ?v = Inr ()" and s: "snd ?v = tm"
      by (auto dest!: result_then [where g = Inr] simp del: addFromTSTEP_values.simps list.map)
    from addFromTSTEP_values_positive [OF i0 p2] f
    have "m_timeList (snd ?v) = m_timeList ?tm0 @ tstep_times (last (m_timeList ?tm0)) [10, 11 / 2]"
      by blast
    then have "m_timeList tm = m_timeList ?tm0 @ tstep_times (last (m_timeList ?tm0)) [10, 11 / 2]"
      unfolding s .
    then show ?thesis by (simp add: m0 l0 tstep_seconds_10 tstep_seconds_5_5)
  next
    assume d: "TimeMap_deck [\<lparr>kw_name = ''START'', kw_records = [r]\<rparr>,
                         \<lparr>kw_name = ''TSTEP'', kw_records = [[map DoubleValue [10]]]\<rparr>,
                         \<lparr>kw_name = ''TSTEP'', kw_records = [[map DoubleValue [11 / 2]]]\<rparr>]
           = Inr tm"
    let ?v = "addFromTSTEP_values (map DoubleValue [10]) ?tm0"
    let ?w = "addFromTSTEP_values (map DoubleValue [11 / 2]) (snd ?v)"
    have "(case ?v of (Inl e, tm') \<Rightarrow> Inl e
           | (Inr u, tm') \<Rightarrow> (case addFromTSTEP_values (map DoubleValue [11 / 2]) tm' of
                 (Inl e, tm'') \<Rightarrow> Inl e | (Inr u, tm'') \<Rightarrow> Inr tm'')) = Inr tm"
      using d
      by (simp add: TimeMap_deck_def hasKeyword_def getKeyword_def getRecord_def and_then_def tr
          tstep_keyword_values del: addFromTSTEP_values.simps list.map split: prod.splits sum.splits)
    then have f: "fst ?v = Inr ()"
      and "(case ?w of (Inl e, tm'') \<Rightarrow> Inl e | (Inr u, tm'') \<Rightarrow> Inr tm'') = Inr tm"
      by (auto dest!: result_then simp del: addFromTSTEP_values.simps list.map)
    then have g: "fst ?w = Inr ()" and s: "snd ?w = tm"
      by (auto dest!: result_then [where g = Inr] simp del: addFromTSTEP_values.simps list.map)
    from addFromTSTEP_values_positive [OF i0 p10] f
    have b1: "last (m_timeList ?tm0) + sum_list (map tstep_seconds [10]) < 2 ^ 63"
      and v: "m_timeList (snd ?v) = m_timeList ?tm0 @ tstep_times (last (m_timeList ?tm0)) [10]"
      by blast+
    have mv: "m_timeList (snd ?v) = [t, t + 864000]"
      unfolding v by (simp add: m0 l0 tstep_seconds_10)
    have i1: "is_int64 (last (m_timeList (snd ?v)))"
      unfolding mv using b1 it by (simp add: l0 tstep_seconds_10 is_int64_def)
    from addFromTSTEP_values_positive [OF i1 p55] g
    have "m_timeList (snd ?w) = m_timeList (snd ?v) @ tstep_times (last (m_timeList (snd ?v))) [11 / 2]"
      by blast
    then have "m_timeList tm = [t, t + 864000] @ tstep_times (last [t, t + 864000]) [11 / 2]"
      unfolding s mv .
    then show ?thesis by (simp add: tstep_seconds_5_5)
  qed
  have d1: "double_of_int (int64_wrap 864000) = 864000"
    and d2: "double_of_int (int64_wrap 475200) = 475200"
    by code_simp+
  show ?thesis using getTimeStepLength_three [OF list, of ndebug] by (simp add: list d1 d2)
qed

subsection \<open>The query on the index lists\<close>

lemma first_of_sequence_unfold:
  assumes "S = (if years then m_first_timestep_years tm else m_first_timestep_months tm)"
  shows "isTimestepInFirstOfMonthsYearsSequence tm index years p frequency =
     (index \<in> set S \<and> (frequency \<le> 1 \<or> isTimestepInFreqSequence tm index p frequency years))"
  using assms std_find_end_iff [of S index]
  by (auto simp add: isTimestepInFirstOfMonthsYearsSequence_def Let_def getFirstTimestepYears_def
      getFirstTimestepMonths_def)


subsection \<open>The claims\<close>

text \<open>
  Claim C3. For every time map whose time list is not empty, with last timestamp \<open>L\<close>,
  and every timestamp \<open>t \<le> L\<close>, \<open>addTime t\<close> throws the ordering violation and leaves
  the object as it was: the time list, the first-of-month indices and the
  first-of-year indices are those before the call.
\<close>

theorem addTime_not_increasing_rejected:
  assumes "m_timeList tm \<noteq> []" and "t \<le> last (m_timeList tm)"
  shows "addTime t tm = (Inl OrderingViolation, tm)
       \<and> m_timeList (snd (addTime t tm)) = m_timeList tm
       \<and> m_first_timestep_months (snd (addTime t tm)) = m_first_timestep_months tm
       \<and> m_first_timestep_years (snd (addTime t tm)) = m_first_timestep_years tm"
  using assms by (simp add: addTime_def)

theorem addTime_not_increasing_rejected_witness:
  "m_timeList (TimeMap_start 100) \<noteq> [] \<and> (100::int) \<le> last (m_timeList (TimeMap_start 100))
   \<and> addTime 100 (TimeMap_start 100) = (Inl OrderingViolation, TimeMap_start 100)"
  using addTime_not_increasing_rejected [of "TimeMap_start 100" 100]
  by (simp add: TimeMap_start_def)

text \<open>
  Claim C5. A successful \<open>addTime t\<close> on a time map with last timestamp \<open>p\<close> appends \<open>t\<close>
  at the index \<open>i\<close>, the length of the time list before. It appends \<open>i\<close> to the
  first-of-month indices exactly when the UTC month number of \<open>t\<close> differs from that of
  \<open>p\<close>, and to the first-of-year indices exactly when the UTC years differ. Both index
  lists keep what they held: nothing is rebuilt. The months and years are those of the
  UTC decomposition of the timestamp; no time zone enters.
\<close>

theorem addTime_boundary_indices:
  assumes "m_timeList tm \<noteq> []" and "last (m_timeList tm) < t"
  shows "addTime t tm =
     (Inr (), \<lparr>m_timeList = m_timeList tm @ [t],
               m_first_timestep_months = m_first_timestep_months tm @
                  (if utc_month t \<noteq> utc_month (last (m_timeList tm))
                   then [length (m_timeList tm)] else []),
               m_first_timestep_years = m_first_timestep_years tm @
                  (if utc_year t \<noteq> utc_year (last (m_timeList tm))
                   then [length (m_timeList tm)] else [])\<rparr>)"
  using assms(2) by (simp add: addTime_accept utc_month_def utc_year_def)

theorem addTime_boundary_indices_witness:
  "addTime 2678400 (TimeMap_start 2678399) =
     (Inr (), \<lparr>m_timeList = [2678399, 2678400], m_first_timestep_months = [1],
               m_first_timestep_years = []\<rparr>)
   \<and> util_set_date_values_utc 2678399 = (31, 1, 1970)
   \<and> util_set_date_values_utc 2678400 = (1, 2, 1970)"
proof -
  have d: "util_set_date_values_utc 2678399 = (31, 1, 1970)"
    "util_set_date_values_utc 2678400 = (1, 2, 1970)"
    by code_simp+
  show ?thesis
    using addTime_boundary_indices [of "TimeMap_start 2678399" 2678400]
    by (simp add: TimeMap_start_def utc_month_def utc_year_def d)
qed

text \<open>
  Claim C6. \<open>mkdatetime\<close> composes the timestamp of its arguments and decomposes it
  again. It returns the timestamp if and only if the decomposition gives back the same
  day, month and year, and throws the invalid-date error on every mismatch: a day
  beyond the end of its month, which the composition carries into the next month, is
  refused. The date of year 2021, month 2, day 30 is refused.
\<close>

theorem mkdatetime_round_trip:
  "mkdatetime y m d h mi s =
     (if util_set_date_values_utc (util_make_datetime_utc s mi h d m y) = (d, m, y)
      then Inr (util_make_datetime_utc s mi h d m y) else Inl InvalidDate)
   \<and> ((\<exists>t. mkdatetime y m d h mi s = Inr t) \<longleftrightarrow>
        util_set_date_values_utc (util_make_datetime_utc s mi h d m y) = (d, m, y))
   \<and> util_set_date_values_utc (util_make_datetime_utc 0 0 0 30 2 2021) = (2, 3, 2021)
   \<and> mkdate 2021 2 30 = Inl InvalidDate"
proof -
  have a: "mkdatetime y m d h mi s =
     (if util_set_date_values_utc (util_make_datetime_utc s mi h d m y) = (d, m, y)
      then Inr (util_make_datetime_utc s mi h d m y) else Inl InvalidDate)"
    by (auto simp add: mkdatetime_def Let_def split: prod.splits)
  have b: "util_set_date_values_utc (util_make_datetime_utc 0 0 0 30 2 2021) = (2, 3, 2021)"
    by code_simp
  have c: "mkdate 2021 2 30 = Inl InvalidDate"
    by code_simp
  show ?thesis using a b c by auto
qed

theorem mkdatetime_round_trip_witness:
  "mkdatetime 2020 2 29 0 0 0 = Inr 1582934400
   \<and> mkdatetime 2021 2 29 0 0 0 = Inl InvalidDate
   \<and> mkdatetime 2021 4 31 0 0 0 = Inl InvalidDate
   \<and> mkdatetime 2021 12 31 25 0 0 = Inl InvalidDate"
proof -
  have d: "util_make_datetime_utc 0 0 0 29 2 2020 = 1582934400"
    "util_set_date_values_utc 1582934400 = (29, 2, 2020)"
    "util_set_date_values_utc (util_make_datetime_utc 0 0 0 29 2 2021) = (1, 3, 2021)"
    "util_set_date_values_utc (util_make_datetime_utc 0 0 0 31 4 2021) = (1, 5, 2021)"
    "util_set_date_values_utc (util_make_datetime_utc 0 0 25 31 12 2021) = (1, 1, 2022)"
    by code_simp+
  show ?thesis
    using mkdatetime_round_trip [of 2020 2 29 0 0 0] mkdatetime_round_trip [of 2021 2 29 0 0 0]
      mkdatetime_round_trip [of 2021 4 31 0 0 0] mkdatetime_round_trip [of 2021 12 31 25 0 0]
    by (simp add: d)
qed

text \<open>
  Claim C10, as stated, fails. The time map built from the smallest \<open>std::time_t\<close> takes
  the duration of -1 second: the sum leaves the range of \<open>std::time_t\<close>, the machine
  result is the largest \<open>std::time_t\<close>, which is above the last time, and \<open>addTStep\<close>
  appends it.
\<close>

theorem addTStep_nonpositive_counterexample:
  "is_int64 (- 9223372036854775808) \<and> (- 1 :: int) \<le> 0
   \<and> forward (- 9223372036854775808) (- 1) = 9223372036854775807
   \<and> fst (addTStep (- 1) (TimeMap_start (- 9223372036854775808))) = Inr ()
   \<and> m_timeList (snd (addTStep (- 1) (TimeMap_start (- 9223372036854775808))))
       = [- 9223372036854775808, 9223372036854775807]
   \<and> addTStep (- 1) (TimeMap_start (- 9223372036854775808))
       \<noteq> (Inl OrderingViolation, TimeMap_start (- 9223372036854775808))"
  by code_simp

text \<open>
  Claim C10, amended. On a time map whose time list is not empty and whose last time is
  a \<open>std::time_t\<close>, \<open>addTStep\<close> with a duration of 0 seconds or less, for which the last
  time plus the duration is not below the smallest \<open>std::time_t\<close>, throws the ordering
  violation and leaves the object as it was: the time it computes is the last time plus
  the duration, which is not above the last time. So does the keyword \<open>TSTEP\<close> whose
  first day-count is 0 or negative, whose seconds are 0 or less, under the same
  condition on the sum.
\<close>

theorem addTStep_nonpositive_rejected:
  assumes "m_timeList tm \<noteq> []" and "is_int64 (last (m_timeList tm))" and "delta \<le> 0"
    and "- (2 ^ 63) \<le> last (m_timeList tm) + delta"
  shows "addTStep delta tm = (Inl OrderingViolation, tm)
       \<and> forward (last (m_timeList tm)) delta = last (m_timeList tm) + delta
       \<and> forward (last (m_timeList tm)) delta \<le> last (m_timeList tm)
       \<and> (\<forall>days rest items records.
             days \<le> 0 \<and> - (2 ^ 63) \<le> last (m_timeList tm) + tstep_seconds days \<longrightarrow>
             tstep_seconds days \<le> 0
             \<and> addFromTSTEPKeyword
                 \<lparr>kw_name = ''TSTEP'', kw_records = ((DoubleValue days # rest) # items) # records\<rparr> tm
               = (Inl OrderingViolation, tm))"
proof -
  have a: "addTStep delta tm = (Inl OrderingViolation, tm)"
    using assms(2,3,4) by (rule addTStep_reject)
  have "is_int64 (last (m_timeList tm) + delta)" using assms(2,3,4) by (simp add: is_int64_def)
  then have b: "forward (last (m_timeList tm)) delta = last (m_timeList tm) + delta"
    by (rule forward_in_range)
  have c: "forward (last (m_timeList tm)) delta \<le> last (m_timeList tm)"
    using assms(3) by (simp add: b)
  have d: "tstep_seconds days \<le> 0
             \<and> addFromTSTEPKeyword
                 \<lparr>kw_name = ''TSTEP'', kw_records = ((DoubleValue days # rest) # items) # records\<rparr> tm
               = (Inl OrderingViolation, tm)"
    if h: "days \<le> 0 \<and> - (2 ^ 63) \<le> last (m_timeList tm) + tstep_seconds days"
    for days rest items records
  proof -
    have n: "tstep_seconds days \<le> 0" using h by (simp add: tstep_seconds_nonpos)
    have "addTStep (tstep_seconds days) tm = (Inl OrderingViolation, tm)"
      using assms(2) n h by (intro addTStep_reject) simp_all
    then show ?thesis
      using n by (simp add: addFromTSTEPKeyword_def and_then_def getRecord_def getItem_def)
  qed
  show ?thesis using a b c d by blast
qed

theorem addTStep_nonpositive_rejected_witness:
  "addTStep 0 (TimeMap_start 100) = (Inl OrderingViolation, TimeMap_start 100)
   \<and> addTStep (- 5) (TimeMap_start 100) = (Inl OrderingViolation, TimeMap_start 100)
   \<and> addTStep (- 1) (TimeMap_start (- 9223372036854775807))
       = (Inl OrderingViolation, TimeMap_start (- 9223372036854775807))
   \<and> addFromTSTEPKeyword \<lparr>kw_name = ''TSTEP'', kw_records = [[[DoubleValue 0]]]\<rparr> (TimeMap_start 100)
       = (Inl OrderingViolation, TimeMap_start 100)
   \<and> addFromTSTEPKeyword \<lparr>kw_name = ''TSTEP'', kw_records = [[[DoubleValue (- 3 / 2)]]]\<rparr> (TimeMap_start 100)
       = (Inl OrderingViolation, TimeMap_start 100)"
proof -
  have ne: "m_timeList (TimeMap_start t) \<noteq> []" for t by (simp add: TimeMap_start_def)
  have l: "last (m_timeList (TimeMap_start t)) = t" for t by (simp add: TimeMap_start_def)
  have r: "is_int64 (last (m_timeList (TimeMap_start 100)))"
    "is_int64 (last (m_timeList (TimeMap_start (- 9223372036854775807))))"
    by (simp_all add: l is_int64_def)
  have s0: "tstep_seconds 0 = 0" and s1: "tstep_seconds (- (3 / 2)) = - 129600" by code_simp+
  have a: "addTStep 0 (TimeMap_start 100) = (Inl OrderingViolation, TimeMap_start 100)"
    using addTStep_nonpositive_rejected [OF ne r(1), of 0] by (simp add: l)
  have b: "addTStep (- 5) (TimeMap_start 100) = (Inl OrderingViolation, TimeMap_start 100)"
    using addTStep_nonpositive_rejected [OF ne r(1), of "- 5"] by (simp add: l)
  have c: "addTStep (- 1) (TimeMap_start (- 9223372036854775807))
       = (Inl OrderingViolation, TimeMap_start (- 9223372036854775807))"
    using addTStep_nonpositive_rejected [OF ne r(2), of "- 1"] by (simp add: l)
  from addTStep_nonpositive_rejected [OF ne r(1), of 0]
  have k: "days \<le> 0 \<and> - (2 ^ 63) \<le> last (m_timeList (TimeMap_start 100)) + tstep_seconds days \<longrightarrow>
             addFromTSTEPKeyword
                 \<lparr>kw_name = ''TSTEP'', kw_records = ((DoubleValue days # []) # []) # []\<rparr>
                 (TimeMap_start 100)
               = (Inl OrderingViolation, TimeMap_start 100)" for days
    by (simp add: l)
  have d: "addFromTSTEPKeyword \<lparr>kw_name = ''TSTEP'', kw_records = [[[DoubleValue 0]]]\<rparr> (TimeMap_start 100)
       = (Inl OrderingViolation, TimeMap_start 100)"
    using k [of 0] by (simp add: l s0)
  have e: "addFromTSTEPKeyword \<lparr>kw_name = ''TSTEP'', kw_records = [[[DoubleValue (- 3 / 2)]]]\<rparr> (TimeMap_start 100)
       = (Inl OrderingViolation, TimeMap_start 100)"
    using k [of "- 3 / 2"] by (simp add: l s1)
  show ?thesis using a b c d e by simp
qed

text \<open>
  Claim C9, as stated, fails. The time map with the times 0 and \<open>2 ^ 53 + 1\<close> has one
  step, and the length of step 0 comes back as \<open>2 ^ 53\<close>, not as the difference of the
  two times: the difference is converted to \<open>double\<close> and \<open>2 ^ 53 + 1\<close> is not a double.
  For index 1, which is not below the number of steps, the function raises no error:
  a build with assertions ends the process, and a build with \<open>NDEBUG\<close> has no check.
\<close>

theorem getTimeStepLength_counterexample:
  "m_timeList (snd (addTime 9007199254740993 (TimeMap_start 0))) = [0, 9007199254740993]
   \<and> numTimesteps (snd (addTime 9007199254740993 (TimeMap_start 0))) = 1
   \<and> at_index (snd (addTime 9007199254740993 (TimeMap_start 0))) 0 = Inr 0
   \<and> at_index (snd (addTime 9007199254740993 (TimeMap_start 0))) 1 = Inr 9007199254740993
   \<and> getTimeStepLength False (snd (addTime 9007199254740993 (TimeMap_start 0))) 0
       = Returned 9007199254740992
   \<and> getTimeStepLength True (snd (addTime 9007199254740993 (TimeMap_start 0))) 0
       = Returned 9007199254740992
   \<and> getTimeStepLength False (snd (addTime 9007199254740993 (TimeMap_start 0))) 0
       \<noteq> Returned (of_int (9007199254740993 - 0))
   \<and> getTimeStepLength False (snd (addTime 9007199254740993 (TimeMap_start 0))) 1 = Aborted
   \<and> getTimeStepLength True (snd (addTime 9007199254740993 (TimeMap_start 0))) 1 = Undefined"
  by code_simp

text \<open>
  Claim C9, amended. On a time map whose time list is a non-empty vector, the number of
  steps is the length less one. For every index that is not below the number of steps,
  the assertion of \<open>getTimeStepLength\<close> is false: a build with assertions ends the
  process there, and a build with \<open>NDEBUG\<close> checks nothing and reads outside the vector.
  For an index below the number of steps, both timestamps are there and the result,
  in either build, is the later one minus the earlier one, taken in \<open>std::time_t\<close> and
  converted to \<open>double\<close>: the difference itself whenever it is below \<open>2 ^ 53\<close> in
  magnitude.
\<close>

theorem getTimeStepLength_difference:
  assumes "m_timeList tm \<noteq> []" and "length (m_timeList tm) < 2 ^ 64"
  shows "numTimesteps tm = length (m_timeList tm) - 1
       \<and> (numTimesteps tm \<le> index \<longrightarrow>
            getTimeStepLength False tm index = Aborted
            \<and> getTimeStepLength True tm index = Undefined)
       \<and> (index < numTimesteps tm \<longrightarrow>
            (\<exists>t1 t2. at_index tm index = Inr t1 \<and> at_index tm (index + 1) = Inr t2
               \<and> getTimeStepLength ndebug tm index = Returned (double_of_int (int64_wrap (t2 - t1)))
               \<and> (\<bar>t2 - t1\<bar> < 2 ^ 53 \<longrightarrow>
                    getTimeStepLength ndebug tm index = Returned (of_int (t2 - t1)))))"
proof -
  have e: "int (length (m_timeList tm)) - 1 = int (length (m_timeList tm) - 1)"
    using assms(1) by (cases "m_timeList tm") simp_all
  have "int (length (m_timeList tm) - 1) < 2 ^ 64" using assms(2) by simp
  then have "int (length (m_timeList tm) - 1) mod 2 ^ 64 = int (length (m_timeList tm) - 1)"
    by (intro mod_pos_pos_trivial) simp_all
  then have n: "numTimesteps tm = length (m_timeList tm) - 1"
    by (simp only: numTimesteps_def size_t_wrap_def e nat_int)
  have a: "numTimesteps tm \<le> index \<longrightarrow>
            getTimeStepLength False tm index = Aborted
            \<and> getTimeStepLength True tm index = Undefined"
    using n by (auto simp add: getTimeStepLength_def)
  have b: "\<exists>t1 t2. at_index tm index = Inr t1 \<and> at_index tm (index + 1) = Inr t2
               \<and> getTimeStepLength ndebug tm index = Returned (double_of_int (int64_wrap (t2 - t1)))
               \<and> (\<bar>t2 - t1\<bar> < 2 ^ 53 \<longrightarrow>
                    getTimeStepLength ndebug tm index = Returned (of_int (t2 - t1)))"
    if lt: "index < numTimesteps tm"
  proof (intro exI conjI impI)
    show "at_index tm index = Inr (m_timeList tm ! index)"
      using lt n by (simp add: at_index_def)
    show "at_index tm (index + 1) = Inr (m_timeList tm ! (index + 1))"
      using lt n by (simp add: at_index_def)
    show g: "getTimeStepLength ndebug tm index
        = Returned (double_of_int (int64_wrap (m_timeList tm ! (index + 1) - m_timeList tm ! index)))"
      using lt n by (simp add: getTimeStepLength_def)
    show "getTimeStepLength ndebug tm index
        = Returned (of_int (m_timeList tm ! (index + 1) - m_timeList tm ! index))"
      if small: "\<bar>m_timeList tm ! (index + 1) - m_timeList tm ! index\<bar> < 2 ^ 53"
    proof -
      have "is_int64 (m_timeList tm ! (index + 1) - m_timeList tm ! index)"
        using small by (simp add: is_int64_def abs_less_iff)
      then have "int64_wrap (m_timeList tm ! (index + 1) - m_timeList tm ! index)
          = m_timeList tm ! (index + 1) - m_timeList tm ! index"
        by (rule int64_wrap_id)
      then show ?thesis using double_of_int_exact [OF small] g by (simp only:)
    qed
  qed
  show ?thesis using n a b by blast
qed

theorem getTimeStepLength_difference_witness:
  "getTimeStepLength False \<lparr>m_timeList = [100, 160, 400], m_first_timestep_months = [], m_first_timestep_years = []\<rparr> 1 = Returned 240
   \<and> getTimeStepLength True \<lparr>m_timeList = [100, 160, 400], m_first_timestep_months = [], m_first_timestep_years = []\<rparr> 1 = Returned 240
   \<and> getTimeStepLength False \<lparr>m_timeList = [100, 160, 400], m_first_timestep_months = [], m_first_timestep_years = []\<rparr> 2
       = Aborted"
proof -
  let ?tm = "\<lparr>m_timeList = [100, 160, 400], m_first_timestep_months = [], m_first_timestep_years = []\<rparr>"
  have ne: "m_timeList ?tm \<noteq> []" and len: "length (m_timeList ?tm) < 2 ^ 64" by simp_all
  have n: "numTimesteps ?tm = 2"
    using getTimeStepLength_difference [OF ne len, of 0] by simp
  have a: "getTimeStepLength False ?tm 2 = Aborted"
    using getTimeStepLength_difference [OF ne len, of 2] n by simp
  have b: "getTimeStepLength nd ?tm 1 = Returned 240" for nd
  proof -
    from getTimeStepLength_difference [OF ne len, of 1 nd] n
    obtain t1 t2 where t: "at_index ?tm 1 = Inr t1" "at_index ?tm (1 + 1) = Inr t2"
      and d: "\<bar>t2 - t1\<bar> < 2 ^ 53 \<longrightarrow> getTimeStepLength nd ?tm 1 = Returned (of_int (t2 - t1))"
      by auto
    have "t1 = 160" "t2 = 400" using t by (simp_all add: at_index_def)
    then show ?thesis using d by simp
  qed
  show ?thesis using a b by simp
qed

text \<open>
  Claim C8. The month table holds exactly sixteen tokens: \<open>JAN\<close>, \<open>FEB\<close>, \<open>MAR\<close>, \<open>APR\<close>,
  \<open>MAY\<close>, \<open>JUN\<close>, \<open>JUL\<close>, \<open>AUG\<close>, \<open>SEP\<close>, \<open>OCT\<close>, \<open>NOV\<close>, \<open>DEC\<close> with the numbers 1 to 12
  in this order, and the synonyms \<open>MAI\<close> (5), \<open>JLY\<close> (7), \<open>OKT\<close> (10) and \<open>DES\<close> (12). For a
  date record (a day, a month token, a year, and a time item that is empty or one
  string) whose month token is any other string, \<open>timeFromEclipse\<close> throws the
  unknown-month error.
\<close>

theorem eclipse_month_names:
  "dom eclipseMonthIndices =
     {''JAN'', ''FEB'', ''MAR'', ''APR'', ''MAY'', ''JUN'', ''JUL'', ''AUG'', ''SEP'', ''OCT'',
      ''NOV'', ''DEC'', ''MAI'', ''JLY'', ''OKT'', ''DES''}
   \<and> map eclipseMonthIndices
        [''JAN'', ''FEB'', ''MAR'', ''APR'', ''MAY'', ''JUN'', ''JUL'', ''AUG'', ''SEP'', ''OCT'',
         ''NOV'', ''DEC'']
       = map Some [1, 2, 3, 4, 5, 6, 7, 8, 9, 10, 11, 12]
   \<and> map eclipseMonthIndices [''MAI'', ''JLY'', ''OKT'', ''DES''] = map Some [5, 7, 10, 12]
   \<and> (\<forall>monthName day year timeItem str.
         monthName \<notin> {''JAN'', ''FEB'', ''MAR'', ''APR'', ''MAY'', ''JUN'', ''JUL'', ''AUG'', ''SEP'',
                        ''OCT'', ''NOV'', ''DEC'', ''MAI'', ''JLY'', ''OKT'', ''DES''}
         \<and> (timeItem = [] \<or> timeItem = [StringValue str])
         \<longrightarrow> timeFromEclipse [[IntValue day], [StringValue monthName], [IntValue year], timeItem]
               = Inl UnknownMonthName)"
proof -
  have d: "dom eclipseMonthIndices =
     {''JAN'', ''FEB'', ''MAR'', ''APR'', ''MAY'', ''JUN'', ''JUL'', ''AUG'', ''SEP'', ''OCT'',
      ''NOV'', ''DEC'', ''MAI'', ''JLY'', ''OKT'', ''DES''}"
    unfolding dom_def eclipseMonthIndices_table by (auto split: if_splits)
  have m: "map eclipseMonthIndices
        [''JAN'', ''FEB'', ''MAR'', ''APR'', ''MAY'', ''JUN'', ''JUL'', ''AUG'', ''SEP'', ''OCT'',
         ''NOV'', ''DEC'']
       = map Some [1, 2, 3, 4, 5, 6, 7, 8, 9, 10, 11, 12]"
    by (simp add: eclipseMonthIndices_def)
  have s: "map eclipseMonthIndices [''MAI'', ''JLY'', ''OKT'', ''DES''] = map Some [5, 7, 10, 12]"
    by (simp add: eclipseMonthIndices_def)
  have u: "timeFromEclipse [[IntValue day], [StringValue monthName], [IntValue year], timeItem]
               = Inl UnknownMonthName"
    if "monthName \<notin> {''JAN'', ''FEB'', ''MAR'', ''APR'', ''MAY'', ''JUN'', ''JUL'', ''AUG'', ''SEP'',
                        ''OCT'', ''NOV'', ''DEC'', ''MAI'', ''JLY'', ''OKT'', ''DES''}
         \<and> (timeItem = [] \<or> timeItem = [StringValue str])"
    for monthName day year timeItem str
  proof -
    have "monthName \<notin> dom eclipseMonthIndices" using that by (simp only: d simp_thms)
    then have "eclipseMonthIndices monthName = None" by auto
    then show ?thesis using that by (intro timeFromEclipse_unknown_month) auto
  qed
  show ?thesis by (intro conjI allI impI; (rule d m s | erule u))
qed

theorem eclipse_month_names_witness:
  "timeFromEclipse [[IntValue 1], [StringValue ''JUNE''], [IntValue 2020], []] = Inl UnknownMonthName
   \<and> timeFromEclipse [[IntValue 1], [StringValue ''jan''], [IntValue 2020], [StringValue ''12:30:00'']]
       = Inl UnknownMonthName
   \<and> timeFromEclipse [[IntValue 1], [StringValue ''MAI''], [IntValue 2020], [StringValue ''12:30:00'']]
       = Inr 1588336200"
proof -
  have a: "timeFromEclipse [[IntValue 1], [StringValue ''JUNE''], [IntValue 2020], []] = Inl UnknownMonthName"
    using eclipse_month_names by simp
  have b: "timeFromEclipse [[IntValue 1], [StringValue ''jan''], [IntValue 2020], [StringValue ''12:30:00'']]
       = Inl UnknownMonthName"
    using eclipse_month_names by simp
  have c: "timeFromEclipse [[IntValue 1], [StringValue ''MAI''], [IntValue 2020], [StringValue ''12:30:00'']]
       = Inr 1588336200"
    by code_simp
  show ?thesis using a b c by simp
qed

text \<open>
  Claim C7, as stated, fails. For the day-count 21.105, the double nearest to it is
  \<open>5940529383478395 / 2 ^ 48\<close>; the keyword \<open>TSTEP\<close> with this day-count appends, after the
  time 0, the time 1823471, whereas the day-count times 86400, truncated, is 1823472,
  in exact arithmetic and in one double multiplication alike. The three products of the
  code are about 506.52, 30391.199999999997 and 1823471.9999999998. For the day-count 0
  the keyword appends nothing: it throws the ordering violation. So it does for the
  day-count \<open>2 ^ 70\<close>, whose seconds are outside the range of \<open>int64_t\<close>.
\<close>

theorem tstep_truncation_counterexample:
  "round_double (21105 / 1000) = 5940529383478395 / 2 ^ 48
   \<and> double_mult (5940529383478395 / 2 ^ 48) 24 = 1113849259402199 / 2 ^ 41
   \<and> double_mult (1113849259402199 / 2 ^ 41) 60 = 2088467361379123 / 2 ^ 36
   \<and> double_mult (2088467361379123 / 2 ^ 36) 60 = 7831752605171711 / 2 ^ 32
   \<and> int64_of_double (7831752605171711 / 2 ^ 32) = 1823471
   \<and> tstep_seconds (5940529383478395 / 2 ^ 48) = 1823471
   \<and> m_timeList (snd (addFromTSTEPKeyword
         \<lparr>kw_name = ''TSTEP'', kw_records = [[[DoubleValue (5940529383478395 / 2 ^ 48)]]]\<rparr>
         (TimeMap_start 0))) = [0, 1823471]
   \<and> 0 + int64_of_double (5940529383478395 / 2 ^ 48 * 86400) = 1823472
   \<and> 0 + int64_of_double (double_mult (5940529383478395 / 2 ^ 48) 86400) = 1823472
   \<and> m_timeList (snd (addFromTSTEPKeyword
         \<lparr>kw_name = ''TSTEP'', kw_records = [[[DoubleValue (5940529383478395 / 2 ^ 48)]]]\<rparr>
         (TimeMap_start 0))) \<noteq> [0, 0 + int64_of_double (5940529383478395 / 2 ^ 48 * 86400)]
   \<and> addFromTSTEPKeyword \<lparr>kw_name = ''TSTEP'', kw_records = [[[DoubleValue 0]]]\<rparr> (TimeMap_start 0)
       = (Inl OrderingViolation, TimeMap_start 0)
   \<and> tstep_seconds (2 ^ 70) = - 9223372036854775808
   \<and> addFromTSTEPKeyword \<lparr>kw_name = ''TSTEP'', kw_records = [[[DoubleValue (2 ^ 70)]]]\<rparr> (TimeMap_start 0)
       = (Inl OrderingViolation, TimeMap_start 0)"
  by code_simp

text \<open>
  Claim C7, amended. On a time map whose time list is not empty and whose last time is
  a \<open>std::time_t\<close>, the keyword \<open>TSTEP\<close> appends, for each day-count of its first item in
  order, one timestamp: the last one before it plus the seconds of the day-count. This
  holds when the double product \<open>((days * 24) * 60) * 60\<close> of every day-count, rounded to
  double precision after each multiplication, is at least 1 and below \<open>2 ^ 63\<close>, and the
  last time plus all the seconds is below \<open>2 ^ 63\<close>. The seconds are this product with
  the fraction dropped; the product is \<open>days * 86400\<close> whenever the three products are
  doubles themselves. A time map built from a \<open>START\<close> date, whose time is a
  \<open>std::time_t\<close>, and the day-counts 10.0 and 5.5 has exactly 3 timestamps, and its step
  lengths are 864000 and 475200 seconds.
\<close>

theorem addFromTSTEPKeyword_appends:
  assumes "m_timeList tm \<noteq> []" and "is_int64 (last (m_timeList tm))"
    and "\<forall>d \<in> set days. 1 \<le> tstep_product d \<and> tstep_product d < 2 ^ 63"
    and "last (m_timeList tm) + sum_list (map tstep_seconds days) < 2 ^ 63"
  shows "fst (addFromTSTEPKeyword
               \<lparr>kw_name = ''TSTEP'', kw_records = (map DoubleValue days # items) # records\<rparr> tm)
           = Inr ()
       \<and> m_timeList (snd (addFromTSTEPKeyword
               \<lparr>kw_name = ''TSTEP'', kw_records = (map DoubleValue days # items) # records\<rparr> tm))
           = m_timeList tm @ tstep_times (last (m_timeList tm)) days
       \<and> length (tstep_times (last (m_timeList tm)) days) = length days
       \<and> (\<forall>d \<in> set days. tstep_seconds d = \<lfloor>tstep_product d\<rfloor> \<and> 0 < tstep_seconds d)
       \<and> (\<forall>d. tstep_product d = round_double (round_double (round_double (d * 24) * 60) * 60))
       \<and> (\<forall>d. is_double (d * 24) \<and> is_double (d * 24 * 60) \<and> is_double (d * 24 * 60 * 60)
              \<longrightarrow> tstep_product d = d * 86400)
       \<and> (\<forall>r t tm' ndebug.
             timeFromEclipse r = Inr t \<and> is_int64 t
             \<and> (TimeMap_deck [\<lparr>kw_name = ''START'', kw_records = [r]\<rparr>,
                              \<lparr>kw_name = ''TSTEP'', kw_records = [[[DoubleValue 10, DoubleValue (11 / 2)]]]\<rparr>]
                   = Inr tm'
                \<or> TimeMap_deck [\<lparr>kw_name = ''START'', kw_records = [r]\<rparr>,
                              \<lparr>kw_name = ''TSTEP'', kw_records = [[[DoubleValue 10]]]\<rparr>,
                              \<lparr>kw_name = ''TSTEP'', kw_records = [[[DoubleValue (11 / 2)]]]\<rparr>]
                   = Inr tm')
             \<longrightarrow> m_timeList tm' = [t, t + 864000, t + 1339200] \<and> length (m_timeList tm') = 3
                 \<and> getTimeStepLength ndebug tm' 0 = Returned 864000
                 \<and> getTimeStepLength ndebug tm' 1 = Returned 475200)"
proof -
  let ?r = "addFromTSTEPKeyword
               \<lparr>kw_name = ''TSTEP'', kw_records = (map DoubleValue days # items) # records\<rparr> tm"
  have kw: "?r = addFromTSTEP_values (map DoubleValue days) tm"
    by (rule tstep_keyword_values)
  have p4: "\<forall>d \<in> set days. tstep_seconds d = \<lfloor>tstep_product d\<rfloor> \<and> 0 < tstep_seconds d"
    using assms(3) by (simp add: tstep_seconds_def int64_of_double_floor)
  then have pos: "\<forall>d \<in> set days. 0 < tstep_seconds d" by blast
  note a = addFromTSTEP_values_positive [OF assms(2) pos]
  have p1: "fst ?r = Inr ()" unfolding kw using a assms(4) by blast
  have p2: "m_timeList (snd ?r) = m_timeList tm @ tstep_times (last (m_timeList tm)) days"
    unfolding kw using a assms(4) by blast
  have p3: "length (tstep_times (last (m_timeList tm)) days) = length days"
    by (rule length_tstep_times)
  have p5: "\<forall>d. tstep_product d = round_double (round_double (round_double (d * 24) * 60) * 60)"
    by (simp add: tstep_product_def double_mult_def)
  have p6: "\<forall>d. is_double (d * 24) \<and> is_double (d * 24 * 60) \<and> is_double (d * 24 * 60 * 60)
              \<longrightarrow> tstep_product d = d * 86400"
    by (simp add: tstep_seconds_exact)
  have p7: "\<forall>r t tm' ndebug.
             timeFromEclipse r = Inr t \<and> is_int64 t
             \<and> (TimeMap_deck [\<lparr>kw_name = ''START'', kw_records = [r]\<rparr>,
                              \<lparr>kw_name = ''TSTEP'', kw_records = [[[DoubleValue 10, DoubleValue (11 / 2)]]]\<rparr>]
                   = Inr tm'
                \<or> TimeMap_deck [\<lparr>kw_name = ''START'', kw_records = [r]\<rparr>,
                              \<lparr>kw_name = ''TSTEP'', kw_records = [[[DoubleValue 10]]]\<rparr>,
                              \<lparr>kw_name = ''TSTEP'', kw_records = [[[DoubleValue (11 / 2)]]]\<rparr>]
                   = Inr tm')
             \<longrightarrow> m_timeList tm' = [t, t + 864000, t + 1339200] \<and> length (m_timeList tm') = 3
                 \<and> getTimeStepLength ndebug tm' 0 = Returned 864000
                 \<and> getTimeStepLength ndebug tm' 1 = Returned 475200"
  proof (intro allI impI)
    fix r t tm' ndebug
    assume h: "timeFromEclipse r = Inr t \<and> is_int64 t
             \<and> (TimeMap_deck [\<lparr>kw_name = ''START'', kw_records = [r]\<rparr>,
                              \<lparr>kw_name = ''TSTEP'', kw_records = [[[DoubleValue 10, DoubleValue (11 / 2)]]]\<rparr>]
                   = Inr tm'
                \<or> TimeMap_deck [\<lparr>kw_name = ''START'', kw_records = [r]\<rparr>,
                              \<lparr>kw_name = ''TSTEP'', kw_records = [[[DoubleValue 10]]]\<rparr>,
                              \<lparr>kw_name = ''TSTEP'', kw_records = [[[DoubleValue (11 / 2)]]]\<rparr>]
                   = Inr tm')"
    have e: "m_timeList tm' = [t, t + 864000, t + 1339200]
       \<and> getTimeStepLength ndebug tm' 0 = Returned 864000
       \<and> getTimeStepLength ndebug tm' 1 = Returned 475200"
      using h by (intro start_tstep_example [of r t tm' ndebug]) simp_all
    then show "m_timeList tm' = [t, t + 864000, t + 1339200] \<and> length (m_timeList tm') = 3
                 \<and> getTimeStepLength ndebug tm' 0 = Returned 864000
                 \<and> getTimeStepLength ndebug tm' 1 = Returned 475200"
      by simp
  qed
  show ?thesis
    by (rule conjI [OF p1 conjI [OF p2 conjI [OF p3 conjI [OF p4 conjI [OF p5 conjI [OF p6 p7]]]]]])
qed

theorem addFromTSTEPKeyword_appends_witness:
  "TimeMap_deck [\<lparr>kw_name = ''START'',
                  kw_records = [[[IntValue 1], [StringValue ''JAN''], [IntValue 2010], []]]\<rparr>,
                 \<lparr>kw_name = ''TSTEP'', kw_records = [[[DoubleValue 10, DoubleValue (11 / 2)]]]\<rparr>]
     = Inr \<lparr>m_timeList = [1262304000, 1263168000, 1263643200], m_first_timestep_months = [],
            m_first_timestep_years = []\<rparr>
   \<and> getTimeStepLength False \<lparr>m_timeList = [1262304000, 1263168000, 1263643200],
         m_first_timestep_months = [], m_first_timestep_years = []\<rparr> 0 = Returned 864000
   \<and> getTimeStepLength False \<lparr>m_timeList = [1262304000, 1263168000, 1263643200],
         m_first_timestep_months = [], m_first_timestep_years = []\<rparr> 1 = Returned 475200
   \<and> m_timeList (snd (addFromTSTEPKeyword
         \<lparr>kw_name = ''TSTEP'', kw_records = [[[DoubleValue 10, DoubleValue (11 / 2)]]]\<rparr>
         (TimeMap_start 100))) = [100, 864100, 1339300]"
proof -
  let ?r = "[[IntValue 1], [StringValue ''JAN''], [IntValue 2010], []]"
  let ?deck = "[\<lparr>kw_name = ''START'', kw_records = [?r]\<rparr>,
                 \<lparr>kw_name = ''TSTEP'', kw_records = [[[DoubleValue 10, DoubleValue (11 / 2)]]]\<rparr>]"
  let ?tm = "\<lparr>m_timeList = [1262304000, 1263168000, 1263643200], m_first_timestep_months = [],
            m_first_timestep_years = []\<rparr>"
  have ne: "m_timeList (TimeMap_start 100) \<noteq> []" by (simp add: TimeMap_start_def)
  have l: "last (m_timeList (TimeMap_start 100)) = 100" by (simp add: TimeMap_start_def)
  have r: "is_int64 (last (m_timeList (TimeMap_start 100)))" by (simp add: l is_int64_def)
  have pr: "tstep_product 10 = 864000" "tstep_product (11 / 2) = 475200" by code_simp+
  have rng: "\<forall>d \<in> set [10, 11 / 2]. 1 \<le> tstep_product d \<and> tstep_product d < 2 ^ 63"
    by (simp add: pr)
  have sm: "last (m_timeList (TimeMap_start 100)) + sum_list (map tstep_seconds [10, 11 / 2]) < 2 ^ 63"
    by (simp add: l tstep_seconds_10 tstep_seconds_5_5)
  note inst = addFromTSTEPKeyword_appends [OF ne r rng sm, of "[]" "[]"]
  have d: "TimeMap_deck ?deck = Inr ?tm" by code_simp
  have t: "timeFromEclipse ?r = Inr 1262304000" by code_simp
  have i: "is_int64 1262304000" by (simp add: is_int64_def)
  from inst t i d
  have g: "getTimeStepLength False ?tm 0 = Returned 864000
         \<and> getTimeStepLength False ?tm 1 = Returned 475200"
    by blast
  from inst have f: "m_timeList (snd (addFromTSTEPKeyword
         \<lparr>kw_name = ''TSTEP'', kw_records = [[[DoubleValue 10, DoubleValue (11 / 2)]]]\<rparr>
         (TimeMap_start 100))) = [100, 864100, 1339300]"
    by (simp add: TimeMap_start_def tstep_seconds_10 tstep_seconds_5_5)
  show ?thesis using d g f by simp
qed

text \<open>
  Claim C4. The time map built from a start time satisfies the invariant: the time
  list is strictly increasing and has at least one element, and the first-of-month
  and first-of-year index lists are strictly increasing with every element above 0
  and below the length of the time list. So does every time map that the constructor
  from a deck returns. \<open>addTime\<close> and \<open>addTStep\<close> keep the invariant, whether they append
  or throw, and so do the two keyword functions.
\<close>

theorem timeline_invariant_preserved:
  "timeline_invariant (TimeMap_start startTime)
   \<and> (\<forall>tm'. TimeMap_deck deck = Inr tm' \<longrightarrow> timeline_invariant tm')
   \<and> (timeline_invariant tm \<longrightarrow> timeline_invariant (snd (addTime t tm)))
   \<and> (timeline_invariant tm \<longrightarrow> timeline_invariant (snd (addTStep delta tm)))
   \<and> (timeline_invariant tm \<longrightarrow> timeline_invariant (snd (addFromTSTEPKeyword keyword tm))
                                \<and> timeline_invariant (snd (addFromDATESKeyword keyword tm)))"
  using TimeMap_start_invariant TimeMap_deck_invariant addTime_invariant addTStep_invariant
    addFromTSTEPKeyword_invariant addFromDATESKeyword_invariant
  by blast

theorem timeline_invariant_preserved_witness:
  "TimeMap_deck [\<lparr>kw_name = ''TSTEP'', kw_records = [[[DoubleValue 31, DoubleValue 365]]]\<rparr>]
     = Inr \<lparr>m_timeList = [410227200, 412905600, 444441600], m_first_timestep_months = [1],
            m_first_timestep_years = [2]\<rparr>
   \<and> timeline_invariant \<lparr>m_timeList = [410227200, 412905600, 444441600],
         m_first_timestep_months = [1], m_first_timestep_years = [2]\<rparr>
   \<and> timeline_invariant (TimeMap_start 0)
   \<and> timeline_invariant (snd (addTime 5 (TimeMap_start 0)))
   \<and> timeline_invariant (snd (addTStep (- 5) (TimeMap_start 0)))"
proof -
  let ?deck = "[\<lparr>kw_name = ''TSTEP'', kw_records = [[[DoubleValue 31, DoubleValue 365]]]\<rparr>]"
  let ?tm = "\<lparr>m_timeList = [410227200, 412905600, 444441600], m_first_timestep_months = [1],
            m_first_timestep_years = [2]\<rparr>"
  note inst = timeline_invariant_preserved [of 0 ?deck "TimeMap_start 0"]
  have d: "TimeMap_deck ?deck = Inr ?tm" by code_simp
  have i0: "timeline_invariant (TimeMap_start 0)" using inst by blast
  have i1: "timeline_invariant ?tm" using inst d by blast
  have i2: "timeline_invariant (snd (addTime 5 (TimeMap_start 0)))"
    using timeline_invariant_preserved [of 0 ?deck "TimeMap_start 0" 5] i0 by blast
  have i3: "timeline_invariant (snd (addTStep (- 5) (TimeMap_start 0)))"
    using timeline_invariant_preserved [of 0 ?deck "TimeMap_start 0" 5 "- 5"] i0 by blast
  show ?thesis using d i0 i1 i2 i3 by simp
qed



text \<open>
  Claim C2. Under the conditions of claim C1, for an index in \<open>S\<close>, a frequency above 1
  and a period start that is not in \<open>S\<close>: when no element of \<open>S\<close> is at least the period
  start, the query is false; otherwise the substitute that \<open>closest\<close> returns is the
  smallest element of \<open>S\<close> that is at least the period start, and the query is true
  exactly when the rank of the index counted from this element is a multiple of the
  frequency.
\<close>

theorem period_start_fallback:
  assumes "S = (if usingYears then m_first_timestep_years tm else m_first_timestep_months tm)"
    and "strictly_increasing S" and "length S < 2 ^ 31"
    and "index \<in> set S" and "1 < frequency" and "periodStartIndex \<notin> set S"
  shows "({x \<in> set S. periodStartIndex \<le> x} = {} \<longrightarrow>
            \<not> isTimestepInFirstOfMonthsYearsSequence tm index usingYears periodStartIndex frequency)
       \<and> ({x \<in> set S. periodStartIndex \<le> x} \<noteq> {} \<longrightarrow>
            closest S periodStartIndex = Min {x \<in> set S. periodStartIndex \<le> x}
            \<and> isTimestepInFirstOfMonthsYearsSequence tm index usingYears periodStartIndex frequency
              = (\<exists>r. rank_from S (Min {x \<in> set S. periodStartIndex \<le> x}) index = Some r
                      \<and> frequency dvd r))"
proof -
  have sorted: "sorted_wrt (<) S" using assms(2) by (simp add: strictly_increasing_def)
  have f: "set (filter (\<lambda>x. periodStartIndex \<le> x) S) = {x \<in> set S. periodStartIndex \<le> x}"
    by simp
  have e: "(filter (\<lambda>x. periodStartIndex \<le> x) S = []) = ({x \<in> set S. periodStartIndex \<le> x} = {})"
    by (simp only: f [symmetric] set_empty)
  have q: "isTimestepInFirstOfMonthsYearsSequence tm index usingYears periodStartIndex frequency
        = (case period_anchor S periodStartIndex of
        None \<Rightarrow> False
      | Some a \<Rightarrow> (case rank_from S a index of None \<Rightarrow> False | Some r \<Rightarrow> r mod frequency = 0))"
    using first_of_sequence_unfold [OF assms(1), of index periodStartIndex frequency]
      freq_sequence_sorted [OF assms(1) sorted assms(3) assms(4), of periodStartIndex frequency]
      assms(4) assms(5)
    by simp
  have pa: "period_anchor S periodStartIndex =
      (if {x \<in> set S. periodStartIndex \<le> x} = {} then None
       else Some (Min {x \<in> set S. periodStartIndex \<le> x}))"
    using assms(6) by (simp only: period_anchor_def e f if_False)
  have cl: "closest S periodStartIndex =
      (if {x \<in> set S. periodStartIndex \<le> x} = {} then 0
       else Min {x \<in> set S. periodStartIndex \<le> x})"
    by (simp only: closest_sorted [OF sorted] e f)
  show ?thesis
    unfolding q pa cl by (auto simp add: mod_eq_0_iff_dvd split: option.splits)
qed

theorem period_start_fallback_witness:
  "closest [2, 5, 8] 3 = 5
   \<and> \<not> isTimestepInFirstOfMonthsYearsSequence
       \<lparr>m_timeList = [0, 1, 2, 3, 4, 5, 6, 7, 8, 9], m_first_timestep_months = [2, 5, 8], m_first_timestep_years = []\<rparr> 5 False 3 2
   \<and> isTimestepInFirstOfMonthsYearsSequence
       \<lparr>m_timeList = [0, 1, 2, 3, 4, 5, 6, 7, 8, 9], m_first_timestep_months = [2, 5, 8], m_first_timestep_years = []\<rparr> 8 False 3 2
   \<and> \<not> isTimestepInFirstOfMonthsYearsSequence
       \<lparr>m_timeList = [0, 1, 2, 3, 4, 5, 6, 7, 8, 9], m_first_timestep_months = [2, 5, 8], m_first_timestep_years = []\<rparr> 2 False 3 2
   \<and> \<not> isTimestepInFirstOfMonthsYearsSequence
       \<lparr>m_timeList = [0, 1, 2, 3, 4, 5, 6, 7, 8, 9], m_first_timestep_months = [2, 5, 8], m_first_timestep_years = []\<rparr> 8 False 9 2"
proof -
  let ?tm = "\<lparr>m_timeList = [0, 1, 2, 3, 4, 5, 6, 7, 8, 9], m_first_timestep_months = [2, 5, 8], m_first_timestep_years = []\<rparr>"
  have S: "[2, 5, 8] = (if False then m_first_timestep_years ?tm else m_first_timestep_months ?tm)"
    by simp
  have inc: "strictly_increasing [2, 5, 8::nat]" by (simp add: strictly_increasing_def)
  have len: "length [2, 5, 8::nat] < 2 ^ 31" by simp
  have s3: "{x \<in> set [2, 5, 8::nat]. 3 \<le> x} = {5, 8}" by auto
  have s9: "{x \<in> set [2, 5, 8::nat]. 9 \<le> x} = {}" by auto
  have r5: "rank_from [2, 5, 8] 5 5 = Some 1" by (simp add: rank_from_def rank_in_def)
  have r8: "rank_from [2, 5, 8] 5 8 = Some 2" by (simp add: rank_from_def rank_in_def)
  have r2: "rank_from [2, 5, 8] 5 2 = None" by (simp add: rank_from_def rank_in_def)
  have p5: "closest [2, 5, 8] 3 = 5 \<and> \<not> isTimestepInFirstOfMonthsYearsSequence ?tm 5 False 3 2"
    using period_start_fallback [OF S inc len, of 5 2 3, unfolded s3] by (simp add: r5)
  have p8: "isTimestepInFirstOfMonthsYearsSequence ?tm 8 False 3 2"
    using period_start_fallback [OF S inc len, of 8 2 3, unfolded s3] by (simp add: r8)
  have p2: "\<not> isTimestepInFirstOfMonthsYearsSequence ?tm 2 False 3 2"
    using period_start_fallback [OF S inc len, of 2 2 3, unfolded s3] by (simp add: r2)
  have p9: "\<not> isTimestepInFirstOfMonthsYearsSequence ?tm 8 False 9 2"
    using period_start_fallback [OF S inc len, of 8 2 9, unfolded s9] by simp
  show ?thesis using p5 p8 p2 p9 by simp
qed

end
